theory Spec2Isabelle
  imports Complex_Main
begin

section \<open>The block sparse matrix of block\_sparse\_matrix.cc\<close>

text \<open>
  The development embeds \<^verbatim>\<open>BlockSparseMatrix\<close> (ceres-solver, file
  \<^verbatim>\<open>internal/ceres/block_sparse_matrix.cc\<close>) as HOL functions.

  \<^item> The type of the scalars is a type parameter: \<open>real\<close> for exact arithmetic,
    \<open>double\<close> (below) where infinities and NaN matter. Rounding is outside the model.
  \<^item> A C++ \<^verbatim>\<open>int\<close> is a HOL integer. Where the program computes a count or a position
    with \<^verbatim>\<open>int\<close> arithmetic (the constructor, \<^verbatim>\<open>CreateDiagonalMatrix\<close>), the result is
    wrapped to 32 bits by \<open>int32\<close>. The index arithmetic of the operations is left
    exact: on a matrix that satisfies the invariant it stays within the counts of the
    matrix.
  \<^item> A pointer argument is an \<open>option\<close>: \<open>None\<close> is the null pointer, \<open>Some xs\<close> points to
    the array \<open>xs\<close>.
  \<^item> Whatever stops the program is a \<open>fault\<close>; a function returns \<open>fault + 'a\<close>.
\<close>

subsection \<open>Faults, checked memory accesses and loops\<close>

datatype fault =
    CheckFailed       \<comment> \<open>a glog \<^verbatim>\<open>CHECK\<close>/\<^verbatim>\<open>DCHECK\<close> failed: the process is aborted\<close>
  | InvalidAccess     \<comment> \<open>a read or write outside an array, or through a null pointer\<close>
  | BadArrayLength    \<comment> \<open>\<^verbatim>\<open>new double[n]\<close> with a negative \<open>n\<close>\<close>
  | Unsupported       \<comment> \<open>\<^verbatim>\<open>throw std::runtime_error("Unsupported")\<close>\<close>

definition seq :: "fault + 'a \<Rightarrow> ('a \<Rightarrow> fault + 'b) \<Rightarrow> fault + 'b" where
  "seq r f = (case r of Inl e \<Rightarrow> Inl e | Inr v \<Rightarrow> f v)"

text \<open>\<^verbatim>\<open>xs[i]\<close> as a read and as a write; outside the array the behaviour of the C++
  program is undefined, which the model reports as \<open>InvalidAccess\<close>.\<close>

definition load :: "'a list \<Rightarrow> int \<Rightarrow> fault + 'a" where
  "load xs i = (if 0 \<le> i \<and> i < int (length xs) then Inr (xs ! nat i) else Inl InvalidAccess)"

definition store :: "'a list \<Rightarrow> int \<Rightarrow> 'a \<Rightarrow> fault + 'a list" where
  "store xs i v =
     (if 0 \<le> i \<and> i < int (length xs) then Inr (xs[nat i := v]) else Inl InvalidAccess)"

text \<open>\<^verbatim>\<open>xs[i] += d\<close>.\<close>

definition add_at :: "('a::plus) list \<Rightarrow> int \<Rightarrow> 'a \<Rightarrow> fault + 'a list" where
  "add_at xs i d = seq (load xs i) (\<lambda>old. store xs i (old + d))"

text \<open>A pointer that is dereferenced: the null pointer addresses no element at all.\<close>

definition deref :: "'a list option \<Rightarrow> 'a list" where
  "deref p = (case p of None \<Rightarrow> [] | Some xs \<Rightarrow> xs)"

text \<open>A loop over the elements of a container, stopping at the first fault.\<close>

fun for_each :: "'a list \<Rightarrow> ('a \<Rightarrow> 's \<Rightarrow> fault + 's) \<Rightarrow> 's \<Rightarrow> fault + 's" where
  "for_each [] body s = Inr s"
| "for_each (x # xs) body s = seq (body x s) (for_each xs body)"

text \<open>The index values of \<^verbatim>\<open>for (int i = 0; i < n; ++i)\<close>; none when \<open>n \<le> 0\<close>.\<close>

definition indices :: "int \<Rightarrow> int list" where
  "indices n = map int [0..<nat n]"

subsection \<open>Machine integers\<close>

text \<open>
  The value that a 32-bit \<^verbatim>\<open>int\<close> holds when the exact result of an operation is \<open>n\<close>.
  Signed overflow is undefined behaviour in C++; the model takes the two's-complement
  result.
\<close>

definition int32 :: "int \<Rightarrow> int" where
  "int32 n = (n + 2147483648) mod 4294967296 - 2147483648"

subsection \<open>Scalars\<close>

text \<open>
  The scalar type of the matrix is a type parameter of the embedding: the operations
  use nothing of it but \<open>0\<close>, \<open>+\<close> and \<open>*\<close>. At the type \<open>real\<close> a \<^verbatim>\<open>double\<close> is an
  exact number. The type \<open>double\<close> adds the special values of IEEE 754: a value is a
  finite number, one of the two infinities or NaN. A finite value is still an exact real
  number, so the rounding of a finite result, its overflow to an infinity and the sign of
  zero are left out; what the type adds is how infinities and NaN arise and propagate in
  \<open>+\<close> and \<open>*\<close>.
\<close>

datatype double = Finite real | PlusInfinity | MinusInfinity | NaN

definition infinity :: "bool \<Rightarrow> double" where
  "infinity positive = (if positive then PlusInfinity else MinusInfinity)"

instantiation double :: "{zero, plus, times}"
begin

definition zero_double :: double where
  "zero_double = Finite 0"

fun plus_double :: "double \<Rightarrow> double \<Rightarrow> double" where
  "plus_double (Finite a) (Finite b) = Finite (a + b)"
| "plus_double NaN y = NaN"
| "plus_double x NaN = NaN"
| "plus_double PlusInfinity MinusInfinity = NaN"
| "plus_double MinusInfinity PlusInfinity = NaN"
| "plus_double PlusInfinity y = PlusInfinity"
| "plus_double x PlusInfinity = PlusInfinity"
| "plus_double MinusInfinity y = MinusInfinity"
| "plus_double x MinusInfinity = MinusInfinity"

fun times_double :: "double \<Rightarrow> double \<Rightarrow> double" where
  "times_double (Finite a) (Finite b) = Finite (a * b)"
| "times_double NaN y = NaN"
| "times_double x NaN = NaN"
| "times_double (Finite a) PlusInfinity = (if a = 0 then NaN else infinity (0 < a))"
| "times_double (Finite a) MinusInfinity = (if a = 0 then NaN else infinity (a < 0))"
| "times_double PlusInfinity (Finite b) = (if b = 0 then NaN else infinity (0 < b))"
| "times_double MinusInfinity (Finite b) = (if b = 0 then NaN else infinity (b < 0))"
| "times_double PlusInfinity PlusInfinity = PlusInfinity"
| "times_double PlusInfinity MinusInfinity = MinusInfinity"
| "times_double MinusInfinity PlusInfinity = MinusInfinity"
| "times_double MinusInfinity MinusInfinity = PlusInfinity"

instance ..

end

text \<open>\<^verbatim>\<open>std::isfinite\<close>.\<close>

fun isfinite :: "double \<Rightarrow> bool" where
  "isfinite (Finite a) = True"
| "isfinite d = False"

subsection \<open>The block structure\<close>

text \<open>
  Modelled from the spec: \<^verbatim>\<open>Block\<close>, \<^verbatim>\<open>Cell\<close>, \<^verbatim>\<open>CompressedRow\<close> and
  \<^verbatim>\<open>CompressedRowBlockStructure\<close> are declared in \<^verbatim>\<open>block_structure.h\<close>, which is not
  among the sources. A block has a size and a position; a cell has the id of its column
  block and the position of its first value in the value buffer; a row entry is a row
  block with its ordered sequence of cells (\<^verbatim>\<open>row.cells[0 .. row.num_cells - 1]\<close>); the
  descriptor has the column block sizes, the column block positions and the rows.
\<close>

record Block =
  block_size :: int
  block_position :: int

record Cell =
  block_id :: int
  position :: int

record CompressedRow =
  block :: Block
  cells :: "Cell list"

definition num_cells :: "CompressedRow \<Rightarrow> int" where
  "num_cells row = int (length (cells row))"

record CompressedRowBlockStructure =
  col_sizes :: "int list"
  col_positions :: "int list"
  rows :: "CompressedRow list"

subsection \<open>The matrix and its construction\<close>

record 'a BlockSparseMatrix =
  num_rows :: int
  num_cols :: int
  num_nonzeros :: int
  max_num_nonzeros :: int
  values_buf :: "'a list"
  block_structure :: CompressedRowBlockStructure

text \<open>The inner loop of the constructor, for one cell of a row:
  \<^verbatim>\<open>num_nonzeros_ += col_sizes[cell.block_id] * row_block_size\<close>.\<close>

definition count_cell :: "int list \<Rightarrow> int \<Rightarrow> Cell \<Rightarrow> int \<Rightarrow> fault + int" where
  "count_cell sizes row_block_size cell nnz =
     seq (load sizes (block_id cell))
         (\<lambda>col_block_size. Inr (int32 (nnz + int32 (col_block_size * row_block_size))))"

text \<open>The outer loop body, \<^verbatim>\<open>num_rows_ += row_block_size\<close> and then the inner loop: the
  state is the pair \<open>(num_rows_, num_nonzeros_)\<close>.\<close>

definition count_row :: "int list \<Rightarrow> CompressedRow \<Rightarrow> int \<times> int \<Rightarrow> fault + int \<times> int" where
  "count_row sizes row = (\<lambda>(nrows, nnz).
     seq (for_each (cells row) (count_cell sizes (block_size (block row))) nnz)
         (\<lambda>nnz'. Inr (int32 (nrows + block_size (block row)), nnz')))"

text \<open>
  The constructor. \<open>dcheck\<close> says whether the \<^verbatim>\<open>DCHECK\<close> macros of glog are compiled in
  (they are in a debug build only; \<^verbatim>\<open>glog/logging.h\<close> is not among the sources).
  \<open>uninit\<close> is the content of the freshly allocated, uninitialised value buffer.
\<close>

definition BlockSparseMatrix_ctor ::
  "bool \<Rightarrow> (nat \<Rightarrow> 'a) \<Rightarrow> CompressedRowBlockStructure option
     \<Rightarrow> fault + 'a BlockSparseMatrix" where
  "BlockSparseMatrix_ctor dcheck uninit block_structure_ptr =
     (case block_structure_ptr of
        None \<Rightarrow> Inl (if dcheck then CheckFailed else InvalidAccess)
      | Some bs \<Rightarrow>
          (let ncols = fold (\<lambda>col_size n. int32 (n + col_size)) (col_sizes bs) 0 in
           seq (for_each (rows bs) (count_row (col_sizes bs)) (0, 0)) (\<lambda>(nrows, nnz).
             if dcheck \<and> (nrows < 0 \<or> ncols < 0 \<or> nnz < 0) then Inl CheckFailed
             else if nnz < 0 then Inl BadArrayLength
             else Inr \<lparr> num_rows = nrows, num_cols = ncols, num_nonzeros = nnz,
                        max_num_nonzeros = nnz, values_buf = map uninit [0..<nat nnz],
                        block_structure = bs \<rparr>)))"

text \<open>The counts as the specification words them.\<close>

definition row_nonzeros :: "int list \<Rightarrow> CompressedRow \<Rightarrow> int" where
  "row_nonzeros sizes row =
     (\<Sum>cell\<leftarrow>cells row. block_size (block row) * sizes ! nat (block_id cell))"

definition total_cols :: "CompressedRowBlockStructure \<Rightarrow> int" where
  "total_cols bs = sum_list (col_sizes bs)"

definition total_rows :: "CompressedRowBlockStructure \<Rightarrow> int" where
  "total_rows bs = (\<Sum>row\<leftarrow>rows bs. block_size (block row))"

definition total_nonzeros :: "CompressedRowBlockStructure \<Rightarrow> int" where
  "total_nonzeros bs = (\<Sum>row\<leftarrow>rows bs. row_nonzeros (col_sizes bs) row)"

definition block_ids_ok :: "CompressedRowBlockStructure \<Rightarrow> bool" where
  "block_ids_ok bs =
     (\<forall>row \<in> set (rows bs). \<forall>cell \<in> set (cells row).
        0 \<le> block_id cell \<and> block_id cell < int (length (col_sizes bs)))"

subsection \<open>The loop nest shared by the operations\<close>

text \<open>
  Every operation walks the rows in order and, in each row, its cells in order; for a
  cell it reads \<^verbatim>\<open>col_sizes[cell.block_id]\<close> and \<^verbatim>\<open>col_positions[cell.block_id]\<close>
  and then works on the block. \<open>body\<close> gets the row block, the cell, the column block
  size and the column block position.
\<close>

definition for_each_cell ::
  "CompressedRowBlockStructure \<Rightarrow> (Block \<Rightarrow> Cell \<Rightarrow> int \<Rightarrow> int \<Rightarrow> 's \<Rightarrow> fault + 's)
     \<Rightarrow> 's \<Rightarrow> fault + 's" where
  "for_each_cell bs body =
     for_each (rows bs) (\<lambda>row.
       for_each (cells row) (\<lambda>cell s.
         seq (load (col_sizes bs) (block_id cell)) (\<lambda>col_block_size.
         seq (load (col_positions bs) (block_id cell)) (\<lambda>col_block_pos.
           body (block row) cell col_block_size col_block_pos s))))"

text \<open>\<^verbatim>\<open>for (r = 0; r < nrow; ++r) for (c = 0; c < ncol; ++c) body\<close>.\<close>

definition for_each_entry ::
  "int \<Rightarrow> int \<Rightarrow> (int \<Rightarrow> int \<Rightarrow> 's \<Rightarrow> fault + 's) \<Rightarrow> 's \<Rightarrow> fault + 's" where
  "for_each_entry nrow ncol body =
     for_each (indices nrow) (\<lambda>r. for_each (indices ncol) (\<lambda>c. body r c))"

subsection \<open>The dense kernels\<close>

text \<open>A sum of \<open>n\<close> terms, each of which reads memory and may fault.\<close>

definition sum_over :: "int \<Rightarrow> (int \<Rightarrow> fault + 'a) \<Rightarrow> fault + ('a::{zero,plus})" where
  "sum_over n summand =
     for_each (indices n) (\<lambda>k s. seq (summand k) (\<lambda>t. Inr (s + t))) 0"

text \<open>\<^verbatim>\<open>out[off + ix] += val ix\<close> for \<open>ix = 0, ..., n - 1\<close>.\<close>

definition accumulate ::
  "int \<Rightarrow> int \<Rightarrow> (int \<Rightarrow> fault + 'a) \<Rightarrow> ('a::plus) list \<Rightarrow> fault + 'a list" where
  "accumulate n off val out =
     for_each (indices n) (\<lambda>ix acc. seq (val ix) (\<lambda>t. add_at acc (off + ix) t)) out"

text \<open>
  Modelled from the spec: \<^verbatim>\<open>MatrixVectorMultiply\<close> and
  \<^verbatim>\<open>MatrixTransposeVectorMultiply\<close> of \<^verbatim>\<open>small_blas.h\<close>, which is not among the
  sources: "multiply an R x C block by a length-C/R vector and accumulate into the
  output". The block \<open>A\<close> is row-major and starts at \<open>a_off\<close>; \<open>b\<close> is read from \<open>b_off\<close>
  and \<open>c\<close> is accumulated into from \<open>c_off\<close> (the pointer arguments \<^verbatim>\<open>x + col_block_pos\<close>
  and so on of the callers).
\<close>

definition MatrixVectorMultiply ::
  "('a::{zero,plus,times}) list \<Rightarrow> int \<Rightarrow> int \<Rightarrow> int \<Rightarrow> 'a list \<Rightarrow> int \<Rightarrow> 'a list \<Rightarrow> int
     \<Rightarrow> fault + 'a list" where
  "MatrixVectorMultiply A a_off num_row_a num_col_a b b_off c c_off =
     accumulate num_row_a c_off (\<lambda>r.
       sum_over num_col_a (\<lambda>k.
         seq (load A (a_off + r * num_col_a + k)) (\<lambda>a.
         seq (load b (b_off + k)) (\<lambda>bk. Inr (a * bk))))) c"

definition MatrixTransposeVectorMultiply ::
  "('a::{zero,plus,times}) list \<Rightarrow> int \<Rightarrow> int \<Rightarrow> int \<Rightarrow> 'a list \<Rightarrow> int \<Rightarrow> 'a list \<Rightarrow> int
     \<Rightarrow> fault + 'a list" where
  "MatrixTransposeVectorMultiply A a_off num_row_a num_col_a b b_off c c_off =
     accumulate num_col_a c_off (\<lambda>k.
       sum_over num_row_a (\<lambda>r.
         seq (load A (a_off + r * num_col_a + k)) (\<lambda>a.
         seq (load b (b_off + r)) (\<lambda>br. Inr (a * br))))) c"

text \<open>\<^verbatim>\<open>std::fill(p, p + n, 0.0)\<close> and \<^verbatim>\<open>VectorRef(p, n).setZero()\<close>: the first
  \<open>n\<close> elements become zero.\<close>

definition fill_zero :: "('a::zero) list \<Rightarrow> int \<Rightarrow> fault + 'a list" where
  "fill_zero xs n =
     (if 0 \<le> n \<and> n \<le> int (length xs) then Inr (replicate (nat n) 0 @ drop (nat n) xs)
      else Inl InvalidAccess)"

subsection \<open>The operations\<close>

text \<open>
  A method returns its outcome together with the matrix as the call leaves it. The
  outcome of a method with an output array is the final content of that array.
\<close>

definition SetZero ::
  "('a::zero) BlockSparseMatrix \<Rightarrow> (fault + unit) \<times> 'a BlockSparseMatrix" where
  "SetZero m =
     (case fill_zero (values_buf m) (num_nonzeros m) of
        Inl e \<Rightarrow> (Inl e, m)
      | Inr vs \<Rightarrow> (Inr (), m\<lparr>values_buf := vs\<rparr>))"

definition RightMultiply ::
  "bool \<Rightarrow> ('a::{zero,plus,times}) list option \<Rightarrow> 'a list option \<Rightarrow> 'a BlockSparseMatrix
     \<Rightarrow> (fault + 'a list) \<times> 'a BlockSparseMatrix" where
  "RightMultiply dcheck x y m =
     (if dcheck \<and> (x = None \<or> y = None) then Inl CheckFailed
      else for_each_cell (block_structure m)
             (\<lambda>row_block cell col_block_size col_block_pos yv.
                MatrixVectorMultiply (values_buf m) (position cell)
                  (block_size row_block) col_block_size
                  (deref x) col_block_pos
                  yv (block_position row_block))
             (deref y),
      m)"

definition LeftMultiply ::
  "bool \<Rightarrow> ('a::{zero,plus,times}) list option \<Rightarrow> 'a list option \<Rightarrow> 'a BlockSparseMatrix
     \<Rightarrow> (fault + 'a list) \<times> 'a BlockSparseMatrix" where
  "LeftMultiply dcheck x y m =
     (if dcheck \<and> (x = None \<or> y = None) then Inl CheckFailed
      else for_each_cell (block_structure m)
             (\<lambda>row_block cell col_block_size col_block_pos yv.
                MatrixTransposeVectorMultiply (values_buf m) (position cell)
                  (block_size row_block) col_block_size
                  (deref x) (block_position row_block)
                  yv col_block_pos)
             (deref y),
      m)"

text \<open>\<^verbatim>\<open>VectorRef(x + col_block_pos, col_block_size) += m.colwise().squaredNorm()\<close> for
  the block \<open>m\<close> of one cell.\<close>

definition add_colwise_squaredNorm ::
  "('a::{zero,plus,times}) list \<Rightarrow> int \<Rightarrow> int \<Rightarrow> int \<Rightarrow> 'a list \<Rightarrow> int \<Rightarrow> fault + 'a list" where
  "add_colwise_squaredNorm A a_off nrow ncol xv x_off =
     accumulate ncol x_off (\<lambda>k.
       sum_over nrow (\<lambda>r. seq (load A (a_off + r * ncol + k)) (\<lambda>a. Inr (a * a)))) xv"

definition SquaredColumnNorm ::
  "bool \<Rightarrow> ('a::{zero,plus,times}) list option \<Rightarrow> 'a BlockSparseMatrix
     \<Rightarrow> (fault + 'a list) \<times> 'a BlockSparseMatrix" where
  "SquaredColumnNorm dcheck x m =
     (if dcheck \<and> x = None then Inl CheckFailed
      else seq (fill_zero (deref x) (num_cols m))
             (for_each_cell (block_structure m)
               (\<lambda>row_block cell col_block_size col_block_pos xv.
                  add_colwise_squaredNorm (values_buf m) (position cell)
                    (block_size row_block) col_block_size xv col_block_pos)),
      m)"

text \<open>\<^verbatim>\<open>m *= ConstVectorRef(scale + col_block_pos, col_block_size).asDiagonal()\<close> for the
  block \<open>m\<close> of one cell: the entry in column \<open>c\<close> of the block is multiplied by
  \<^verbatim>\<open>scale[col_block_pos + c]\<close>.\<close>

definition scale_block_columns ::
  "('a::{zero,plus,times}) list \<Rightarrow> int \<Rightarrow> int \<Rightarrow> int \<Rightarrow> 'a list \<Rightarrow> int \<Rightarrow> fault + 'a list" where
  "scale_block_columns A a_off nrow ncol scale s_off =
     for_each_entry nrow ncol (\<lambda>r c vs.
       seq (load vs (a_off + r * ncol + c)) (\<lambda>a.
       seq (load scale (s_off + c)) (\<lambda>s.
         store vs (a_off + r * ncol + c) (a * s)))) A"

definition ScaleColumns ::
  "bool \<Rightarrow> ('a::{zero,plus,times}) list option \<Rightarrow> 'a BlockSparseMatrix
     \<Rightarrow> (fault + unit) \<times> 'a BlockSparseMatrix" where
  "ScaleColumns dcheck scale m =
     (if dcheck \<and> scale = None then (Inl CheckFailed, m)
      else case for_each_cell (block_structure m)
                  (\<lambda>row_block cell col_block_size col_block_pos vs.
                     scale_block_columns vs (position cell)
                       (block_size row_block) col_block_size (deref scale) col_block_pos)
                  (values_buf m) of
             Inl e \<Rightarrow> (Inl e, m)
           | Inr vs \<Rightarrow> (Inr (), m\<lparr>values_buf := vs\<rparr>))"

text \<open>A dense matrix is the list of its rows. \<^verbatim>\<open>D(i, j) += d\<close>:\<close>

definition add_at2 ::
  "('a::plus) list list \<Rightarrow> int \<Rightarrow> int \<Rightarrow> 'a \<Rightarrow> fault + 'a list list" where
  "add_at2 D i j d =
     seq (load D i) (\<lambda>row. seq (add_at row j d) (\<lambda>row'. store D i row'))"

text \<open>\<^verbatim>\<open>m.block(row_block_pos, col_block_pos, nrow, ncol) += MatrixRef(A + a_off, nrow, ncol)\<close>.\<close>

definition add_block ::
  "('a::plus) list \<Rightarrow> int \<Rightarrow> int \<Rightarrow> int \<Rightarrow> int \<Rightarrow> int \<Rightarrow> 'a list list
     \<Rightarrow> fault + 'a list list" where
  "add_block A a_off nrow ncol row_off col_off D =
     for_each_entry nrow ncol (\<lambda>r c D'.
       seq (load A (a_off + r * ncol + c)) (\<lambda>a. add_at2 D' (row_off + r) (col_off + c) a)) D"

text \<open>The outcome is the dense matrix that \<^verbatim>\<open>*dense_matrix\<close> holds in the end; its former
  content is lost in \<^verbatim>\<open>resize\<close> and \<^verbatim>\<open>setZero\<close>.\<close>

definition ToDenseMatrix ::
  "bool \<Rightarrow> ('a::{zero,plus}) list list option \<Rightarrow> 'a BlockSparseMatrix
     \<Rightarrow> (fault + 'a list list) \<times> 'a BlockSparseMatrix" where
  "ToDenseMatrix dcheck dense_matrix m =
     (if dcheck \<and> dense_matrix = None then Inl CheckFailed
      else if dense_matrix = None then Inl InvalidAccess
      else if num_rows m < 0 \<or> num_cols m < 0 then Inl BadArrayLength
      else for_each_cell (block_structure m)
             (\<lambda>row_block cell col_block_size col_block_pos D.
                add_block (values_buf m) (position cell)
                  (block_size row_block) col_block_size
                  (block_position row_block) col_block_pos D)
             (replicate (nat (num_rows m)) (replicate (nat (num_cols m)) 0)),
      m)"

text \<open>
  Modelled from the spec: \<^verbatim>\<open>TripletSparseMatrix\<close> (\<^verbatim>\<open>triplet_sparse_matrix.h\<close> is not
  among the sources) is "an in-memory (row-index, col-index, value) list \<dots> plus the
  matrix's row/column counts". It has three parallel arrays; \<^verbatim>\<open>Reserve\<close> makes room for
  the given number of triples, \<^verbatim>\<open>Resize\<close> sets the row and column counts,
  \<^verbatim>\<open>SetZero\<close> zeroes the values and forgets the triples, \<^verbatim>\<open>set_num_nonzeros\<close> says how
  many triples the arrays hold.
\<close>

record 'a TripletSparseMatrix =
  t_num_rows :: int
  t_num_cols :: int
  t_num_nonzeros :: int
  t_rows :: "int list"
  t_cols :: "int list"
  t_values :: "'a list"

definition reserve_array :: "'a \<Rightarrow> int \<Rightarrow> 'a list \<Rightarrow> 'a list" where
  "reserve_array z n xs = xs @ replicate (nat n - length xs) z"

definition Reserve ::
  "int \<Rightarrow> ('a::zero) TripletSparseMatrix \<Rightarrow> 'a TripletSparseMatrix" where
  "Reserve n t = t\<lparr> t_rows := reserve_array 0 n (t_rows t),
                    t_cols := reserve_array 0 n (t_cols t),
                    t_values := reserve_array 0 n (t_values t) \<rparr>"

definition Resize ::
  "int \<Rightarrow> int \<Rightarrow> 'a TripletSparseMatrix \<Rightarrow> 'a TripletSparseMatrix" where
  "Resize nrows ncols t = t\<lparr> t_num_rows := nrows, t_num_cols := ncols \<rparr>"

definition SetZero_triplet ::
  "('a::zero) TripletSparseMatrix \<Rightarrow> 'a TripletSparseMatrix" where
  "SetZero_triplet t = t\<lparr> t_values := map (\<lambda>_. 0) (t_values t), t_num_nonzeros := 0 \<rparr>"

definition set_num_nonzeros ::
  "int \<Rightarrow> 'a TripletSparseMatrix \<Rightarrow> 'a TripletSparseMatrix" where
  "set_num_nonzeros n t = t\<lparr> t_num_nonzeros := n \<rparr>"

text \<open>The triples a triplet matrix holds, in the order of its arrays.\<close>

definition triplets :: "'a TripletSparseMatrix \<Rightarrow> (int \<times> int \<times> 'a) list" where
  "triplets t = take (nat (t_num_nonzeros t)) (zip (t_rows t) (zip (t_cols t) (t_values t)))"

text \<open>The two inner loops of \<^verbatim>\<open>ToTripletSparseMatrix\<close> for one cell; \<open>jac_pos\<close> starts at
  the position of the cell and is incremented with \<open>c\<close>.\<close>

definition triplet_block ::
  "'a list \<Rightarrow> int \<Rightarrow> int \<Rightarrow> int \<Rightarrow> int \<Rightarrow> int \<Rightarrow> 'a TripletSparseMatrix
     \<Rightarrow> fault + 'a TripletSparseMatrix" where
  "triplet_block vals cell_pos nrow ncol row_off col_off t =
     seq (for_each_entry nrow ncol (\<lambda>r c (t', jac_pos).
            seq (store (t_rows t') jac_pos (row_off + r)) (\<lambda>rs.
            seq (store (t_cols t') jac_pos (col_off + c)) (\<lambda>cs.
            seq (load vals jac_pos) (\<lambda>v.
            seq (store (t_values t') jac_pos v) (\<lambda>vs.
              Inr (t'\<lparr> t_rows := rs, t_cols := cs, t_values := vs \<rparr>, jac_pos + 1))))))
            (t, cell_pos))
         (\<lambda>(t', jac_pos). Inr t')"

definition ToTripletSparseMatrix ::
  "bool \<Rightarrow> ('a::zero) TripletSparseMatrix option \<Rightarrow> 'a BlockSparseMatrix
     \<Rightarrow> (fault + 'a TripletSparseMatrix) \<times> 'a BlockSparseMatrix" where
  "ToTripletSparseMatrix dcheck matrix m =
     (case matrix of
        None \<Rightarrow> Inl (if dcheck then CheckFailed else InvalidAccess)
      | Some t \<Rightarrow>
          seq (for_each_cell (block_structure m)
                 (\<lambda>row_block cell col_block_size col_block_pos t'.
                    triplet_block (values_buf m) (position cell)
                      (block_size row_block) col_block_size
                      (block_position row_block) col_block_pos t')
                 (SetZero_triplet (Resize (num_rows m) (num_cols m)
                    (Reserve (num_nonzeros m) t))))
              (\<lambda>t'. Inr (set_num_nonzeros (num_nonzeros m) t')),
      m)"

text \<open>\<^verbatim>\<open>ToTextFile\<close>: the file is the list of the lines written to it, a line being the
  three numbers that \<^verbatim>\<open>fprintf\<close> formats. The null check is a \<^verbatim>\<open>CHECK\<close>, present in
  every build.\<close>

definition text_block ::
  "'a list \<Rightarrow> int \<Rightarrow> int \<Rightarrow> int \<Rightarrow> int \<Rightarrow> int \<Rightarrow> (int \<times> int \<times> 'a) list
     \<Rightarrow> fault + (int \<times> int \<times> 'a) list" where
  "text_block vals cell_pos nrow ncol row_off col_off file =
     seq (for_each_entry nrow ncol (\<lambda>r c (lines, jac_pos).
            seq (load vals jac_pos) (\<lambda>v.
              Inr (lines @ [(row_off + r, col_off + c, v)], jac_pos + 1)))
            (file, cell_pos))
         (\<lambda>(lines, jac_pos). Inr lines)"

definition ToTextFile ::
  "(int \<times> int \<times> 'a) list option \<Rightarrow> 'a BlockSparseMatrix
     \<Rightarrow> (fault + (int \<times> int \<times> 'a) list) \<times> 'a BlockSparseMatrix" where
  "ToTextFile file m =
     (case file of
        None \<Rightarrow> Inl CheckFailed
      | Some lines \<Rightarrow>
          for_each_cell (block_structure m)
            (\<lambda>row_block cell col_block_size col_block_pos f.
               text_block (values_buf m) (position cell)
                 (block_size row_block) col_block_size
                 (block_position row_block) col_block_pos f)
            lines,
      m)"

subsection \<open>The diagonal matrix\<close>

text \<open>
  \<^verbatim>\<open>block_structure.h\<close> is not among the sources. What this file shows of a row is that
  \<^verbatim>\<open>row.cells\<close> is used as a \<^verbatim>\<open>Cell*\<close> and \<^verbatim>\<open>row.num_cells\<close> as an \<^verbatim>\<open>int\<close>
  (lines 74 and 75), and what it shows of \<^verbatim>\<open>CreateDiagonalMatrix\<close> is that the descriptor
  gets one cell, \<^verbatim>\<open>bs->all_cells.resize(1)\<close>, and that every row is a copy of the one row
  \<^verbatim>\<open>CompressedRow(bs->all_cells)\<close>. So here the cells are kept in a store, the array
  \<^verbatim>\<open>all_cells\<close>, and a row refers to its cells by an index into that array. What the
  absent constructors do is a parameter of the model:

  \<^item> \<open>cell0\<close> is the cell that \<^verbatim>\<open>resize(1)\<close> makes;
  \<^item> \<open>cells_ptr\<close> is where \<^verbatim>\<open>cells\<close> of the row \<^verbatim>\<open>CompressedRow(bs->all_cells)\<close>
    points: an index into \<^verbatim>\<open>all_cells\<close>, or \<open>None\<close> for the null pointer;
  \<^item> \<open>ncells\<close> is \<^verbatim>\<open>num_cells\<close> of that row.

  The rows that \<^verbatim>\<open>rows.resize\<close> copies from it have the same pointer and the same count,
  and the loop changes neither.

  The first loop of \<^verbatim>\<open>CreateDiagonalMatrix\<close>: row \<open>i\<close> gets the block of column block
  \<open>i\<close>, and the cell \<^verbatim>\<open>row.cells[0]\<close> is set to column block \<open>i\<close> at the running
  \<open>position\<close>. The state of the loop is \<^verbatim>\<open>all_cells\<close>, the blocks of the rows set so far
  and \<open>position\<close>.
\<close>

definition diagonal_rows ::
  "int option \<Rightarrow> int list \<Rightarrow> int list \<Rightarrow> Cell list \<Rightarrow> fault + Cell list \<times> Block list \<times> int" where
  "diagonal_rows cells_ptr sizes positions all_cells =
     for_each (indices (int (length sizes))) (\<lambda>i (all_cells', blocks, pos).
       seq (load sizes i) (\<lambda>sz.
       seq (load positions i) (\<lambda>p.
         case cells_ptr of
           None \<Rightarrow> Inl InvalidAccess
         | Some a \<Rightarrow>
             seq (store all_cells' a \<lparr> block_id = i, position = pos \<rparr>) (\<lambda>all_cells''.
               Inr (all_cells'', blocks @ [\<lparr> block_size = sz, block_position = p \<rparr>],
                    int32 (pos + int32 (sz * sz)))))))
       (all_cells, [], 0)"

text \<open>
  The cells \<^verbatim>\<open>row.cells[0]\<close>, \dots, \<^verbatim>\<open>row.cells[row.num_cells - 1]\<close> of a row, as the
  constructor of the matrix reads them (lines 74 to 77). The descriptor of the matrix
  holds the cells of a row by value, so they are read here, row by row, when the
  descriptor is handed to the constructor; nothing writes to \<^verbatim>\<open>all_cells\<close> after the
  first loop.
\<close>

definition row_cells :: "Cell list \<Rightarrow> int option \<Rightarrow> int \<Rightarrow> fault + Cell list" where
  "row_cells all_cells cells_ptr ncells =
     for_each (indices ncells) (\<lambda>j cs.
       case cells_ptr of
         None \<Rightarrow> Inl InvalidAccess
       | Some a \<Rightarrow> seq (load all_cells (a + j)) (\<lambda>cell. Inr (cs @ [cell]))) []"

definition rows_of ::
  "Cell list \<Rightarrow> int option \<Rightarrow> int \<Rightarrow> Block list \<Rightarrow> fault + CompressedRow list" where
  "rows_of all_cells cells_ptr ncells blocks =
     for_each blocks (\<lambda>b rws.
       seq (row_cells all_cells cells_ptr ncells) (\<lambda>cs.
         Inr (rws @ [\<lparr> block = b, cells = cs \<rparr>]))) []"

text \<open>The second loop: \<^verbatim>\<open>values[j * (size + 1)] = diagonal[j]\<close> for each block, after
  which both pointers advance. The state is the value buffer, the offset of
  \<^verbatim>\<open>diagonal\<close> and the offset of \<^verbatim>\<open>values\<close>.\<close>

definition fill_diagonal ::
  "'a list \<Rightarrow> int list \<Rightarrow> 'a list \<Rightarrow> fault + 'a list \<times> int \<times> int" where
  "fill_diagonal diagonal sizes vals =
     for_each sizes (\<lambda>size (vs, d_off, v_off).
       seq (for_each (indices size) (\<lambda>j vs'.
              seq (load diagonal (d_off + j)) (\<lambda>d.
                store vs' (v_off + int32 (j * int32 (size + 1))) d)) vs)
           (\<lambda>vs'. Inr (vs', d_off + size, v_off + int32 (size * size)))) (vals, 0, 0)"

definition CreateDiagonalMatrix ::
  "Cell \<Rightarrow> int option \<Rightarrow> int \<Rightarrow> bool \<Rightarrow> (nat \<Rightarrow> 'a) \<Rightarrow> ('a::zero) list \<Rightarrow> int list \<Rightarrow> int list
     \<Rightarrow> fault + 'a BlockSparseMatrix" where
  "CreateDiagonalMatrix cell0 cells_ptr ncells dcheck uninit diagonal sizes positions =
     seq (diagonal_rows cells_ptr sizes positions [cell0]) (\<lambda>(all_cells, blocks, pos).
     seq (rows_of all_cells cells_ptr ncells blocks) (\<lambda>rws.
     seq (BlockSparseMatrix_ctor dcheck uninit
            (Some \<lparr> col_sizes = sizes, col_positions = positions, rows = rws \<rparr>)) (\<lambda>matrix.
     case SetZero matrix of
       (Inl e, matrix') \<Rightarrow> Inl e
     | (Inr u, matrix') \<Rightarrow>
         seq (fill_diagonal diagonal sizes (values_buf matrix')) (\<lambda>(vs, d_off, v_off).
           Inr (matrix'\<lparr> values_buf := vs \<rparr>)))))"

subsection \<open>The operations that are switched off\<close>

text \<open>Each of them throws before anything else; what follows the \<^verbatim>\<open>throw\<close> is excluded
  by \<^verbatim>\<open>#if 0\<close> or unreachable.\<close>

definition AppendRows ::
  "'a BlockSparseMatrix \<Rightarrow> 'a BlockSparseMatrix \<Rightarrow> (fault + unit) \<times> 'a BlockSparseMatrix" where
  "AppendRows m' m = (Inl Unsupported, m)"

definition DeleteRowBlocks ::
  "int \<Rightarrow> 'a BlockSparseMatrix \<Rightarrow> (fault + unit) \<times> 'a BlockSparseMatrix" where
  "DeleteRowBlocks delta_row_blocks m = (Inl Unsupported, m)"

definition CreateRandomMatrix :: "'options \<Rightarrow> fault + 'a BlockSparseMatrix option" where
  "CreateRandomMatrix options = Inl Unsupported"

subsection \<open>The invariant of the descriptor\<close>

text \<open>The exclusive prefix sums of a list, starting from \<open>a\<close>.\<close>

fun prefix_sums :: "int \<Rightarrow> int list \<Rightarrow> int list" where
  "prefix_sums a [] = []"
| "prefix_sums a (x # xs) = a # prefix_sums (a + x) xs"

text \<open>The cells in the order in which the operations visit them, each with its row
  block and the size and position of its column block.\<close>

definition cell_list ::
  "CompressedRowBlockStructure \<Rightarrow> (Block \<times> Cell \<times> int \<times> int) list" where
  "cell_list bs =
     concat (map (\<lambda>row. map (\<lambda>cell. (block row, cell,
                                         col_sizes bs ! nat (block_id cell),
                                         col_positions bs ! nat (block_id cell)))
                            (cells row)) (rows bs))"

definition cell_position :: "Block \<times> Cell \<times> int \<times> int \<Rightarrow> int" where
  "cell_position = (\<lambda>(row_block, cell, col_block_size, col_block_pos). position cell)"

definition cell_area :: "Block \<times> Cell \<times> int \<times> int \<Rightarrow> int" where
  "cell_area = (\<lambda>(row_block, cell, col_block_size, col_block_pos).
                  block_size row_block * col_block_size)"

text \<open>
  Block sizes are counts; the column block positions are the exclusive prefix sums of the
  column block sizes and the row block positions those of the row block sizes; a cell
  names a column block of the descriptor; and the cells, in structure order, lie one
  after the other in the value buffer, the first at 0.
\<close>

definition descriptor_invariant :: "CompressedRowBlockStructure \<Rightarrow> bool" where
  "descriptor_invariant bs =
     ((\<forall>s \<in> set (col_sizes bs). 0 \<le> s)
      \<and> col_positions bs = prefix_sums 0 (col_sizes bs)
      \<and> (\<forall>row \<in> set (rows bs). 0 \<le> block_size (block row))
      \<and> map (\<lambda>row. block_position (block row)) (rows bs)
          = prefix_sums 0 (map (\<lambda>row. block_size (block row)) (rows bs))
      \<and> block_ids_ok bs
      \<and> map cell_position (cell_list bs)
          = prefix_sums 0 (map cell_area (cell_list bs)))"

text \<open>What construction adds: the counts are those of the descriptor and the value
  buffer has exactly \<open>num_nonzeros\<close> elements.\<close>

definition matrix_invariant :: "'a BlockSparseMatrix \<Rightarrow> bool" where
  "matrix_invariant m =
     (descriptor_invariant (block_structure m)
      \<and> num_rows m = total_rows (block_structure m)
      \<and> num_cols m = total_cols (block_structure m)
      \<and> num_nonzeros m = total_nonzeros (block_structure m)
      \<and> int (length (values_buf m)) = num_nonzeros m)"

text \<open>What the invariant gives for one visited cell: its block lies within the rows and
  the columns of the matrix and its values within the value buffer.\<close>

definition cell_in_bounds :: "int \<Rightarrow> int \<Rightarrow> int \<Rightarrow> Block \<times> Cell \<times> int \<times> int \<Rightarrow> bool" where
  "cell_in_bounds nrows ncols nnz = (\<lambda>(row_block, cell, col_block_size, col_block_pos).
     0 \<le> block_size row_block \<and> 0 \<le> block_position row_block
     \<and> block_position row_block + block_size row_block \<le> nrows
     \<and> 0 \<le> col_block_size \<and> 0 \<le> col_block_pos \<and> col_block_pos + col_block_size \<le> ncols
     \<and> 0 \<le> position cell \<and> position cell + block_size row_block * col_block_size \<le> nnz)"

subsection \<open>The stored scalars\<close>

text \<open>The offsets \<open>(r, c)\<close> within a block of \<open>nrow\<close> rows and \<open>ncol\<close> columns, row by
  row.\<close>

definition entry_list :: "int \<Rightarrow> int \<Rightarrow> (int \<times> int) list" where
  "entry_list nrow ncol = concat (map (\<lambda>r. map (\<lambda>c. (r, c)) (indices ncol)) (indices nrow))"

text \<open>The triples of one cell as the specification words them: for the scalar at row
  offset \<open>r\<close> and column offset \<open>c\<close> the triple
  \<open>(row_block_position + r, column_block_position + c, value)\<close>, the block being stored
  row-major from the position of the cell.\<close>

definition block_triples ::
  "'a list \<Rightarrow> Block \<times> Cell \<times> int \<times> int \<Rightarrow> (int \<times> int \<times> 'a) list" where
  "block_triples vals = (\<lambda>(row_block, cell, col_block_size, col_block_pos).
     map (\<lambda>(r, c). (block_position row_block + r, col_block_pos + c,
                     vals ! nat (position cell + r * col_block_size + c)))
         (entry_list (block_size row_block) col_block_size))"

text \<open>All of them: row-major within a cell, the cells of a row in order, the rows in
  order.\<close>

definition stored_triples :: "'a BlockSparseMatrix \<Rightarrow> (int \<times> int \<times> 'a) list" where
  "stored_triples m =
     concat (map (block_triples (values_buf m)) (cell_list (block_structure m)))"

text \<open>An array whose elements from index \<open>p\<close> on have been overwritten by \<open>ws\<close>.\<close>

definition overwrite :: "nat \<Rightarrow> 'a list \<Rightarrow> 'a list \<Rightarrow> 'a list" where
  "overwrite p ws xs = take p xs @ ws @ drop (p + length ws) xs"

subsection \<open>Dense matrices\<close>

text \<open>A dense matrix of \<open>nrows\<close> rows and \<open>ncols\<close> columns.\<close>

definition has_dims :: "nat \<Rightarrow> nat \<Rightarrow> 'a list list \<Rightarrow> bool" where
  "has_dims nrows ncols D = (length D = nrows \<and> (\<forall>k<nrows. length (D ! k) = ncols))"

text \<open>A dense matrix flattened into triples: its entries other than zero with their
  coordinates.\<close>

definition dense_entries :: "('a::zero) list list \<Rightarrow> (int \<times> int \<times> 'a) list" where
  "dense_entries D =
     concat (map (\<lambda>i. concat (map (\<lambda>j. if D ! i ! j = 0 then [] else [(int i, int j, D ! i ! j)])
                                 [0..<length (D ! i)]))
                 [0..<length D])"

text \<open>The sum of the squares of the entries of column \<open>j\<close> of a dense matrix.\<close>

definition column_squaredNorm :: "real list list \<Rightarrow> nat \<Rightarrow> real" where
  "column_squaredNorm D j = (\<Sum>row\<leftarrow>D. row ! j * row ! j)"

text \<open>The coordinates of a triple.\<close>

definition coordinates :: "int \<times> int \<times> 'a \<Rightarrow> int \<times> int" where
  "coordinates = (\<lambda>(r, c, v). (r, c))"

subsection \<open>Dot products\<close>

definition dot :: "real list \<Rightarrow> real list \<Rightarrow> real" where
  "dot xs ys = (\<Sum>(a, b)\<leftarrow>zip xs ys. a * b)"

text \<open>What an accumulating operation has added to its output array.\<close>

definition contribution :: "real list \<Rightarrow> real list \<Rightarrow> real list" where
  "contribution after before = map (\<lambda>(a, b). a - b) (zip after before)"

subsection \<open>Example matrices\<close>

text \<open>A matrix with column blocks of sizes 2 and 1 and row blocks of sizes 1 and 2; the
  first row block has a cell in each column block, the second one in the last. Its dense
  form has the rows \<open>[1, 2, 3]\<close>, \<open>[0, 0, 4]\<close> and \<open>[0, 0, 5]\<close>.\<close>

definition example_structure :: CompressedRowBlockStructure where
  "example_structure =
     \<lparr> col_sizes = [2, 1], col_positions = [0, 2],
       rows = [ \<lparr> block = \<lparr> block_size = 1, block_position = 0 \<rparr>,
                  cells = [\<lparr> block_id = 0, position = 0 \<rparr>, \<lparr> block_id = 1, position = 2 \<rparr>] \<rparr>,
                \<lparr> block = \<lparr> block_size = 2, block_position = 1 \<rparr>,
                  cells = [\<lparr> block_id = 1, position = 3 \<rparr>] \<rparr> ] \<rparr>"

definition example_matrix :: "real BlockSparseMatrix" where
  "example_matrix =
     \<lparr> num_rows = 3, num_cols = 3, num_nonzeros = 5, max_num_nonzeros = 5,
       values_buf = [1, 2, 3, 4, 5], block_structure = example_structure \<rparr>"

text \<open>The same matrix with scalars of type \<open>double\<close>.\<close>

definition example_double_matrix :: "double BlockSparseMatrix" where
  "example_double_matrix =
     \<lparr> num_rows = 3, num_cols = 3, num_nonzeros = 5, max_num_nonzeros = 5,
       values_buf = [Finite 1, Finite 2, Finite 3, Finite 4, Finite 5],
       block_structure = example_structure \<rparr>"

text \<open>A descriptor with one row block of 65536 rows and one column block of 65536
  columns, and the one cell.\<close>

definition overflow_structure :: CompressedRowBlockStructure where
  "overflow_structure =
     \<lparr> col_sizes = [65536], col_positions = [0],
       rows = [ \<lparr> block = \<lparr> block_size = 65536, block_position = 0 \<rparr>,
                  cells = [\<lparr> block_id = 0, position = 0 \<rparr>] \<rparr> ] \<rparr>"

text \<open>The matrix of a descriptor without column blocks and without rows.\<close>

definition empty_matrix :: "real BlockSparseMatrix" where
  "empty_matrix =
     \<lparr> num_rows = 0, num_cols = 0, num_nonzeros = 0, max_num_nonzeros = 0,
       values_buf = [], block_structure = \<lparr> col_sizes = [], col_positions = [], rows = [] \<rparr> \<rparr>"

text \<open>A triplet matrix that holds nothing.\<close>

definition empty_triplet :: "real TripletSparseMatrix" where
  "empty_triplet = \<lparr> t_num_rows = 0, t_num_cols = 0, t_num_nonzeros = 0,
                      t_rows = [], t_cols = [], t_values = [] \<rparr>"

text \<open>A matrix of one row and one column whose only row block lists the only column
  block twice; it satisfies the invariant.\<close>

definition duplicate_matrix :: "real BlockSparseMatrix" where
  "duplicate_matrix =
     \<lparr> num_rows = 1, num_cols = 1, num_nonzeros = 2, max_num_nonzeros = 2,
       values_buf = [1, 1],
       block_structure =
         \<lparr> col_sizes = [1], col_positions = [0],
           rows = [ \<lparr> block = \<lparr> block_size = 1, block_position = 0 \<rparr>,
                      cells = [\<lparr> block_id = 0, position = 0 \<rparr>,
                               \<lparr> block_id = 0, position = 1 \<rparr>] \<rparr> ] \<rparr> \<rparr>"

section \<open>Properties\<close>

subsection \<open>Faults and loops\<close>

lemma seq_Inr [simp]: "seq (Inr v) f = f v"
  by (simp add: seq_def)

lemma seq_Inl [simp]: "seq (Inl e) f = Inl e"
  by (simp add: seq_def)

lemma for_each_append:
  "for_each (xs @ ys) body s = seq (for_each xs body s) (for_each ys body)"
proof (induction xs arbitrary: s)
  case Nil
  show ?case by simp
next
  case (Cons x xs)
  show ?case
  proof (cases "body x s")
    case (Inl e)
    then show ?thesis by simp
  next
    case (Inr s')
    then show ?thesis by (simp add: Cons.IH)
  qed
qed

subsection \<open>Construction\<close>

lemma int32_id:
  assumes "- 2147483648 \<le> n" and "n \<le> 2147483647"
  shows "int32 n = n"
  using assms by (simp add: int32_def)

lemma int32_add_right: "int32 (a + int32 b) = int32 (a + b)"
proof -
  have "(a + ((b + 2147483648) mod 4294967296 - 2147483648) + 2147483648) mod 4294967296
          = (a + b + 2147483648) mod 4294967296"
    by (simp add: algebra_simps mod_simps)
  then show ?thesis by (simp add: int32_def)
qed

lemma int32_add_left: "int32 (int32 a + b) = int32 (a + b)"
  using int32_add_right [of b a] by (simp add: add.commute)

lemma int32_0 [simp]: "int32 0 = 0"
  by (simp add: int32_def)

lemma fold_int32_sum:
  "fold (\<lambda>x n. int32 (n + x)) xs (int32 a) = int32 (a + sum_list xs)"
proof (induction xs arbitrary: a)
  case Nil
  show ?case by simp
next
  case (Cons x xs)
  have "fold (\<lambda>x n. int32 (n + x)) (x # xs) (int32 a)
          = fold (\<lambda>x n. int32 (n + x)) xs (int32 (a + x))"
    by (simp add: int32_add_left)
  then show ?case by (simp add: Cons.IH add.assoc)
qed

lemma count_cells_sum:
  assumes "\<forall>cell \<in> set cs. 0 \<le> block_id cell \<and> block_id cell < int (length sizes)"
  shows "for_each cs (count_cell sizes rs) (int32 nnz) =
           Inr (int32 (nnz + (\<Sum>cell\<leftarrow>cs. rs * sizes ! nat (block_id cell))))"
  using assms
proof (induction cs arbitrary: nnz)
  case Nil
  show ?case by simp
next
  case (Cons c cs)
  have "count_cell sizes rs c (int32 nnz) = Inr (int32 (nnz + sizes ! nat (block_id c) * rs))"
    using Cons.prems by (simp add: count_cell_def load_def int32_add_left int32_add_right)
  then show ?case
    using Cons by (simp add: algebra_simps)
qed

lemma count_rows_sum:
  assumes "\<forall>row \<in> set rs. \<forall>cell \<in> set (cells row).
             0 \<le> block_id cell \<and> block_id cell < int (length sizes)"
  shows "for_each rs (count_row sizes) (int32 nrows, int32 nnz) =
           Inr (int32 (nrows + (\<Sum>row\<leftarrow>rs. block_size (block row))),
                int32 (nnz + (\<Sum>row\<leftarrow>rs. row_nonzeros sizes row)))"
  using assms
proof (induction rs arbitrary: nrows nnz)
  case Nil
  show ?case by simp
next
  case (Cons r rs)
  have "count_row sizes r (int32 nrows, int32 nnz) =
          Inr (int32 (nrows + block_size (block r)), int32 (nnz + row_nonzeros sizes r))"
    using Cons.prems by (simp add: count_row_def count_cells_sum row_nonzeros_def int32_add_left)
  then show ?case
    using Cons by (simp add: algebra_simps)
qed

text \<open>What the constructor computes, for any descriptor whose cells name existing column
  blocks: the three sums, wrapped to 32 bits.\<close>

lemma ctor_wrapped:
  assumes "block_ids_ok bs"
  shows "BlockSparseMatrix_ctor dcheck uninit (Some bs) =
           (let nrows = int32 (total_rows bs); ncols = int32 (total_cols bs);
                nnz = int32 (total_nonzeros bs) in
            if dcheck \<and> (nrows < 0 \<or> ncols < 0 \<or> nnz < 0) then Inl CheckFailed
            else if nnz < 0 then Inl BadArrayLength
            else Inr \<lparr> num_rows = nrows, num_cols = ncols, num_nonzeros = nnz,
                       max_num_nonzeros = nnz, values_buf = map uninit [0..<nat nnz],
                       block_structure = bs \<rparr>)"
proof -
  have loop: "for_each (rows bs) (count_row (col_sizes bs)) (0, 0) =
                Inr (int32 (total_rows bs), int32 (total_nonzeros bs))"
    using assms count_rows_sum [of "rows bs" "col_sizes bs" 0 0]
    by (simp add: block_ids_ok_def total_rows_def total_nonzeros_def)
  have cols: "fold (\<lambda>col_size n. int32 (n + col_size)) (col_sizes bs) 0 = int32 (total_cols bs)"
    using fold_int32_sum [of "col_sizes bs" 0] by (simp add: total_cols_def)
  show ?thesis
    by (simp add: BlockSparseMatrix_ctor_def loop cols Let_def)
qed

text \<open>
  C1, as the claim states it, fails: the three counts are 32-bit integers. For a
  descriptor with one row block of 65536 rows whose only cell is in a column block of
  65536 columns, the sum over the cells is \<open>2\<^sup>3\<^sup>2\<close>; \<open>num_nonzeros\<close> comes out as 0 and
  the value buffer is empty.
\<close>

theorem ctor_counts_counterexample:
  "descriptor_invariant overflow_structure
   \<and> (\<Sum>row\<leftarrow>rows overflow_structure. \<Sum>cell\<leftarrow>cells row.
         block_size (block row) * col_sizes overflow_structure ! nat (block_id cell))
       = 4294967296
   \<and> BlockSparseMatrix_ctor True (\<lambda>i. 0 :: real) (Some overflow_structure)
       = Inr \<lparr> num_rows = 65536, num_cols = 65536, num_nonzeros = 0, max_num_nonzeros = 0,
               values_buf = [], block_structure = overflow_structure \<rparr>"
  by code_simp

text \<open>
  C1, amended. For a descriptor whose cells name existing column blocks and whose three
  sums are not negative and at most \<open>2\<^sup>3\<^sup>1 - 1\<close>, construction succeeds; \<open>num_cols\<close> is
  the sum of the column block sizes, \<open>num_rows\<close> the sum of the row block sizes,
  \<open>num_nonzeros\<close> the sum over the cells of every row of row block size times column
  block size, and the value buffer has exactly \<open>num_nonzeros\<close> elements.
\<close>

theorem ctor_counts:
  assumes "block_ids_ok bs"
    and "0 \<le> total_cols bs" and "total_cols bs \<le> 2147483647"
    and "0 \<le> total_rows bs" and "total_rows bs \<le> 2147483647"
    and "0 \<le> total_nonzeros bs" and "total_nonzeros bs \<le> 2147483647"
  shows "\<exists>m. BlockSparseMatrix_ctor dcheck uninit (Some bs) = Inr m
           \<and> num_cols m = sum_list (col_sizes bs)
           \<and> num_rows m = (\<Sum>row\<leftarrow>rows bs. block_size (block row))
           \<and> num_nonzeros m =
               (\<Sum>row\<leftarrow>rows bs. \<Sum>cell\<leftarrow>cells row.
                   block_size (block row) * col_sizes bs ! nat (block_id cell))
           \<and> int (length (values_buf m)) = num_nonzeros m
           \<and> block_structure m = bs"
proof -
  have nnz: "total_nonzeros bs =
               (\<Sum>row\<leftarrow>rows bs. \<Sum>cell\<leftarrow>cells row.
                   block_size (block row) * col_sizes bs ! nat (block_id cell))"
    by (simp add: total_nonzeros_def row_nonzeros_def)
  have w: "int32 (total_cols bs) = total_cols bs" "int32 (total_rows bs) = total_rows bs"
    "int32 (total_nonzeros bs) = total_nonzeros bs"
    using assms(2-7) by (simp_all add: int32_id)
  have "BlockSparseMatrix_ctor dcheck uninit (Some bs) =
          Inr \<lparr> num_rows = total_rows bs, num_cols = total_cols bs,
                  num_nonzeros = total_nonzeros bs, max_num_nonzeros = total_nonzeros bs,
                  values_buf = map uninit [0..<nat (total_nonzeros bs)],
                  block_structure = bs \<rparr>"
    unfolding ctor_wrapped [OF assms(1)] w Let_def using assms(2,4,6) by simp
  moreover have "int (length (map uninit [0..<nat (total_nonzeros bs)])) = total_nonzeros bs"
    using assms(6) by simp
  ultimately show ?thesis
    unfolding nnz [symmetric] by (simp add: total_cols_def total_rows_def)
qed

theorem ctor_counts_witness:
  "block_ids_ok example_structure
   \<and> 0 \<le> total_cols example_structure \<and> total_cols example_structure \<le> 2147483647
   \<and> 0 \<le> total_rows example_structure \<and> total_rows example_structure \<le> 2147483647
   \<and> 0 \<le> total_nonzeros example_structure \<and> total_nonzeros example_structure \<le> 2147483647
   \<and> (\<exists>m. BlockSparseMatrix_ctor True (\<lambda>i. 0 :: real) (Some example_structure) = Inr m
          \<and> num_cols m = 3 \<and> num_rows m = 3 \<and> num_nonzeros m = 5
          \<and> int (length (values_buf m)) = 5)"
proof -
  have h1: "block_ids_ok example_structure" by code_simp
  have h2: "0 \<le> total_cols example_structure" by code_simp
  have h3: "total_cols example_structure \<le> 2147483647" by code_simp
  have h4: "0 \<le> total_rows example_structure" by code_simp
  have h5: "total_rows example_structure \<le> 2147483647" by code_simp
  have h6: "0 \<le> total_nonzeros example_structure" by code_simp
  have h7: "total_nonzeros example_structure \<le> 2147483647" by code_simp
  have c: "sum_list (col_sizes example_structure) = 3"
    by (simp add: example_structure_def)
  have r: "(\<Sum>row\<leftarrow>rows example_structure. block_size (block row)) = 3"
    by (simp add: example_structure_def)
  have n: "(\<Sum>row\<leftarrow>rows example_structure. \<Sum>cell\<leftarrow>cells row.
              block_size (block row) * col_sizes example_structure ! nat (block_id cell)) = 5"
    by (simp add: example_structure_def)
  from ctor_counts [OF h1 h2 h3 h4 h5 h6 h7, of True "\<lambda>i. 0 :: real"] obtain m where
    "BlockSparseMatrix_ctor True (\<lambda>i. 0 :: real) (Some example_structure) = Inr m"
    "num_cols m = 3" "num_rows m = 3" "num_nonzeros m = 5"
    "int (length (values_buf m)) = 5"
    unfolding c r n by auto
  with h1 h2 h3 h4 h5 h6 h7 show ?thesis by blast
qed

subsection \<open>The operations that are switched off\<close>

text \<open>
  C8. \<^verbatim>\<open>AppendRows\<close>, \<^verbatim>\<open>DeleteRowBlocks\<close> and \<^verbatim>\<open>CreateRandomMatrix\<close> signal the
  unsupported-operation fault whatever their arguments are, and the matrix the first two
  are called on is left as it was: value buffer, descriptor and counts.
\<close>

theorem unsupported_operations:
  "AppendRows other m = (Inl Unsupported, m)
   \<and> DeleteRowBlocks delta_row_blocks m = (Inl Unsupported, m)
   \<and> CreateRandomMatrix options = Inl Unsupported
   \<and> values_buf (snd (AppendRows other m)) = values_buf m
   \<and> block_structure (snd (AppendRows other m)) = block_structure m
   \<and> values_buf (snd (DeleteRowBlocks delta_row_blocks m)) = values_buf m
   \<and> block_structure (snd (DeleteRowBlocks delta_row_blocks m)) = block_structure m"
  by (simp add: AppendRows_def DeleteRowBlocks_def CreateRandomMatrix_def)

subsection \<open>Null pointers\<close>

text \<open>
  C9, as the claim states it, fails: the null checks of the constructor and of the
  operations are \<^verbatim>\<open>DCHECK\<close>s, and where those are compiled out a call with null
  pointers can run to its end. On a matrix without rows \<^verbatim>\<open>RightMultiply\<close> then returns
  normally, having touched nothing.
\<close>

theorem null_pointer_counterexample:
  "RightMultiply False None None empty_matrix = (Inr [], empty_matrix)"
  by (simp add: RightMultiply_def for_each_cell_def empty_matrix_def deref_def)

text \<open>
  C9, amended. Where the \<^verbatim>\<open>DCHECK\<close>s are compiled in, construction from a null
  descriptor and every operation given a null \<open>x\<close>, \<open>y\<close>, \<open>scale\<close>, \<open>dense_matrix\<close> or
  \<open>matrix\<close> stops with a failed check; \<^verbatim>\<open>ToTextFile\<close> given a null file stops with a
  failed check in every build.
\<close>

theorem null_pointers_checked:
  "BlockSparseMatrix_ctor True uninit None = Inl CheckFailed
   \<and> fst (RightMultiply True None y m) = Inl CheckFailed
   \<and> fst (RightMultiply True x None m) = Inl CheckFailed
   \<and> fst (LeftMultiply True None y m) = Inl CheckFailed
   \<and> fst (LeftMultiply True x None m) = Inl CheckFailed
   \<and> fst (SquaredColumnNorm True None m) = Inl CheckFailed
   \<and> fst (ScaleColumns True None m) = Inl CheckFailed
   \<and> fst (ToDenseMatrix True None m) = Inl CheckFailed
   \<and> fst (ToTripletSparseMatrix True None m) = Inl CheckFailed
   \<and> fst (ToTextFile None m) = Inl CheckFailed"
  by (simp add: BlockSparseMatrix_ctor_def RightMultiply_def LeftMultiply_def
      SquaredColumnNorm_def ScaleColumns_def ToDenseMatrix_def ToTripletSparseMatrix_def
      ToTextFile_def)

subsection \<open>What the operations leave alone\<close>

lemma SetZero_frame:
  "block_structure (snd (SetZero m)) = block_structure m
   \<and> num_rows (snd (SetZero m)) = num_rows m
   \<and> num_cols (snd (SetZero m)) = num_cols m
   \<and> num_nonzeros (snd (SetZero m)) = num_nonzeros m"
  by (simp add: SetZero_def split: sum.splits)

lemma ScaleColumns_frame:
  "block_structure (snd (ScaleColumns dcheck scale m)) = block_structure m
   \<and> num_rows (snd (ScaleColumns dcheck scale m)) = num_rows m
   \<and> num_cols (snd (ScaleColumns dcheck scale m)) = num_cols m
   \<and> num_nonzeros (snd (ScaleColumns dcheck scale m)) = num_nonzeros m"
  by (simp add: ScaleColumns_def split: sum.splits)

text \<open>
  C10. \<^verbatim>\<open>RightMultiply\<close>, \<^verbatim>\<open>LeftMultiply\<close>, \<^verbatim>\<open>SquaredColumnNorm\<close>,
  \<^verbatim>\<open>ToDenseMatrix\<close> and \<^verbatim>\<open>ToTripletSparseMatrix\<close> leave the matrix as it was; after
  \<^verbatim>\<open>SetZero\<close> and \<^verbatim>\<open>ScaleColumns\<close> the descriptor and the three counts are as
  before.
\<close>

theorem operations_frame:
  "snd (RightMultiply dcheck x y m) = m
   \<and> snd (LeftMultiply dcheck x y m) = m
   \<and> snd (SquaredColumnNorm dcheck x m) = m
   \<and> snd (ToDenseMatrix dcheck dense_matrix m) = m
   \<and> snd (ToTripletSparseMatrix dcheck matrix m) = m
   \<and> block_structure (snd (SetZero m)) = block_structure m
   \<and> num_rows (snd (SetZero m)) = num_rows m
   \<and> num_cols (snd (SetZero m)) = num_cols m
   \<and> num_nonzeros (snd (SetZero m)) = num_nonzeros m
   \<and> block_structure (snd (ScaleColumns dcheck scale m)) = block_structure m
   \<and> num_rows (snd (ScaleColumns dcheck scale m)) = num_rows m
   \<and> num_cols (snd (ScaleColumns dcheck scale m)) = num_cols m
   \<and> num_nonzeros (snd (ScaleColumns dcheck scale m)) = num_nonzeros m"
  using SetZero_frame [of m] ScaleColumns_frame [of dcheck scale m]
  by (simp add: RightMultiply_def LeftMultiply_def SquaredColumnNorm_def ToDenseMatrix_def
      ToTripletSparseMatrix_def)

subsection \<open>Loops over nested containers\<close>

lemma for_each_map: "for_each (map g xs) body s = for_each xs (\<lambda>x. body (g x)) s"
proof (induction xs arbitrary: s)
  case Nil
  show ?case by simp
next
  case (Cons x xs)
  show ?case by (cases "body (g x) s") (simp_all add: Cons.IH)
qed

lemma for_each_concat:
  "for_each (concat xss) body s = for_each xss (\<lambda>xs. for_each xs body) s"
proof (induction xss arbitrary: s)
  case Nil
  show ?case by simp
next
  case (Cons xs xss)
  show ?case
    by (cases "for_each xs body s") (simp_all add: for_each_append Cons.IH)
qed

lemma for_each_cong:
  assumes "\<And>x s. x \<in> set xs \<Longrightarrow> f x s = g x s"
  shows "for_each xs f s = for_each xs g s"
  using assms
proof (induction xs arbitrary: s)
  case Nil
  show ?case by simp
next
  case (Cons x xs)
  have "f x s = g x s" using Cons.prems by simp
  moreover have "for_each xs f s' = for_each xs g s'" for s'
    using Cons by simp
  ultimately show ?case by (cases "g x s") simp_all
qed

lemma for_each_cell_flat:
  assumes "block_ids_ok bs" and "length (col_positions bs) = length (col_sizes bs)"
  shows "for_each_cell bs body s =
           for_each (cell_list bs) (\<lambda>(rb, cell, cs, cp). body rb cell cs cp) s"
proof -
  have inner: "for_each (cells row) (\<lambda>cell s.
                  seq (load (col_sizes bs) (block_id cell)) (\<lambda>col_block_size.
                  seq (load (col_positions bs) (block_id cell)) (\<lambda>col_block_pos.
                    body (block row) cell col_block_size col_block_pos s))) s'
               = for_each (map (\<lambda>cell. (block row, cell,
                                         col_sizes bs ! nat (block_id cell),
                                         col_positions bs ! nat (block_id cell)))
                            (cells row)) (\<lambda>(rb, cell, cs, cp). body rb cell cs cp) s'"
    if "row \<in> set (rows bs)" for row s'
    unfolding for_each_map
    by (rule for_each_cong) (use that assms in \<open>simp add: block_ids_ok_def load_def\<close>)
  show ?thesis
    unfolding for_each_cell_def cell_list_def for_each_concat for_each_map
    by (rule for_each_cong) (simp add: inner for_each_map)
qed

lemma for_each_map_fun: "for_each (map g xs) body = for_each xs (\<lambda>x. body (g x))"
  by (rule ext) (rule for_each_map)

lemma for_each_concat_fun:
  "for_each (concat xss) body = for_each xss (\<lambda>xs. for_each xs body)"
  by (rule ext) (rule for_each_concat)

lemma for_each_entry_flat:
  "for_each_entry nrow ncol body s = for_each (entry_list nrow ncol) (\<lambda>(r, c). body r c) s"
  by (simp add: for_each_entry_def entry_list_def for_each_concat_fun for_each_map_fun)

subsection \<open>What the invariant of the descriptor gives\<close>

lemma prefix_sums_length [simp]: "length (prefix_sums a xs) = length xs"
  by (induction xs arbitrary: a) simp_all

lemma prefix_sums_bounds:
  assumes "\<forall>x \<in> set xs. 0 \<le> x" and "i < length xs"
  shows "a \<le> prefix_sums a xs ! i \<and> prefix_sums a xs ! i + xs ! i \<le> a + sum_list xs"
  using assms
proof (induction xs arbitrary: a i)
  case Nil
  then show ?case by simp
next
  case (Cons x xs)
  have nonneg: "0 \<le> x" "0 \<le> sum_list xs"
    using Cons.prems(1) by (simp_all add: sum_list_nonneg)
  show ?case
  proof (cases i)
    case 0
    then show ?thesis using nonneg by simp
  next
    case (Suc j)
    then have "j < length xs" using Cons.prems(2) by simp
    with Cons.IH [of j "a + x"] Cons.prems(1)
    have "a + x \<le> prefix_sums (a + x) xs ! j"
      and "prefix_sums (a + x) xs ! j + xs ! j \<le> a + x + sum_list xs"
      by simp_all
    then show ?thesis using Suc nonneg by simp
  qed
qed

lemma sum_list_map_concat:
  "(\<Sum>x\<leftarrow>concat xss. f x) = (\<Sum>xs\<leftarrow>xss. \<Sum>x\<leftarrow>xs. f x)"
  for f :: "'b \<Rightarrow> 'a::monoid_add"
  by (induction xss) simp_all

lemma sum_cell_area: "sum_list (map cell_area (cell_list bs)) = total_nonzeros bs"
proof -
  have "sum_list (map cell_area (map (\<lambda>cell. (block row, cell,
                                         col_sizes bs ! nat (block_id cell),
                                         col_positions bs ! nat (block_id cell)))
                            (cells row))) = row_nonzeros (col_sizes bs) row" for row
    by (simp add: row_nonzeros_def cell_area_def comp_def)
  then show ?thesis
    by (simp add: cell_list_def total_nonzeros_def sum_list_map_concat comp_def)
qed

lemma cell_list_member:
  assumes "q \<in> set (cell_list bs)"
  obtains row cell where "row \<in> set (rows bs)" and "cell \<in> set (cells row)"
    and "q = (block row, cell, col_sizes bs ! nat (block_id cell),
              col_positions bs ! nat (block_id cell))"
  using assms by (auto simp: cell_list_def)

lemma invariant_cell_in_bounds:
  assumes inv: "descriptor_invariant bs" and q: "q \<in> set (cell_list bs)"
  shows "cell_in_bounds (total_rows bs) (total_cols bs) (total_nonzeros bs) q"
proof -
  from q obtain row cell where row: "row \<in> set (rows bs)" and cell: "cell \<in> set (cells row)"
    and q_eq: "q = (block row, cell, col_sizes bs ! nat (block_id cell),
                    col_positions bs ! nat (block_id cell))"
    by (rule cell_list_member)
  from inv have cols_nonneg: "\<forall>s \<in> set (col_sizes bs). 0 \<le> s"
    and cols_pos: "col_positions bs = prefix_sums 0 (col_sizes bs)"
    and rows_nonneg: "\<forall>row \<in> set (rows bs). 0 \<le> block_size (block row)"
    and rows_pos: "map (\<lambda>row. block_position (block row)) (rows bs)
                     = prefix_sums 0 (map (\<lambda>row. block_size (block row)) (rows bs))"
    and ids: "block_ids_ok bs"
    and cells_pos: "map cell_position (cell_list bs)
                      = prefix_sums 0 (map cell_area (cell_list bs))"
    by (simp_all add: descriptor_invariant_def)
  \<comment> \<open>the column block\<close>
  from ids row cell have "0 \<le> block_id cell \<and> block_id cell < int (length (col_sizes bs))"
    unfolding block_ids_ok_def by blast
  then have id: "0 \<le> block_id cell" "nat (block_id cell) < length (col_sizes bs)"
    by linarith+
  have c1: "0 \<le> col_sizes bs ! nat (block_id cell)"
    using cols_nonneg id(2) by simp
  have c2: "0 \<le> col_positions bs ! nat (block_id cell)"
    and c3: "col_positions bs ! nat (block_id cell) + col_sizes bs ! nat (block_id cell)
               \<le> total_cols bs"
    using prefix_sums_bounds [OF cols_nonneg id(2), of 0]
    by (simp_all add: cols_pos total_cols_def)
  \<comment> \<open>the row block\<close>
  from row obtain i where i: "i < length (rows bs)" and row_i: "rows bs ! i = row"
    by (auto simp: in_set_conv_nth)
  have "block_position (block row) = map (\<lambda>row. block_position (block row)) (rows bs) ! i"
    using i row_i by simp
  then have rp: "block_position (block row)
                   = prefix_sums 0 (map (\<lambda>row. block_size (block row)) (rows bs)) ! i"
    by (simp only: rows_pos)
  have rows_nonneg': "\<forall>x \<in> set (map (\<lambda>row. block_size (block row)) (rows bs)). 0 \<le> x"
    using rows_nonneg by simp
  have r1: "0 \<le> block_size (block row)" using rows_nonneg row by simp
  have r2: "0 \<le> block_position (block row)"
    and r3: "block_position (block row) + block_size (block row) \<le> total_rows bs"
    using prefix_sums_bounds [OF rows_nonneg', of i 0] i row_i
    by (simp_all add: rp total_rows_def)
  \<comment> \<open>the values\<close>
  from q obtain k where k: "k < length (cell_list bs)" and q_k: "cell_list bs ! k = q"
    by (auto simp: in_set_conv_nth)
  have area_nonneg: "\<forall>x \<in> set (map cell_area (cell_list bs)). 0 \<le> x"
  proof
    fix x assume "x \<in> set (map cell_area (cell_list bs))"
    then obtain q' where q': "q' \<in> set (cell_list bs)" and x: "x = cell_area q'" by auto
    from q' obtain row' cell' where "row' \<in> set (rows bs)" "cell' \<in> set (cells row')"
      "q' = (block row', cell', col_sizes bs ! nat (block_id cell'),
              col_positions bs ! nat (block_id cell'))"
      by (rule cell_list_member)
    moreover from this ids
    have "0 \<le> block_id cell' \<and> block_id cell' < int (length (col_sizes bs))"
      unfolding block_ids_ok_def by blast
    then have "nat (block_id cell') < length (col_sizes bs)" by linarith
    ultimately show "0 \<le> x"
      using rows_nonneg cols_nonneg by (simp add: x cell_area_def)
  qed
  have "position cell = map cell_position (cell_list bs) ! k"
    using k q_k q_eq by (simp add: cell_position_def)
  then have pp: "position cell = prefix_sums 0 (map cell_area (cell_list bs)) ! k"
    by (simp only: cells_pos)
  have "cell_area q = block_size (block row) * col_sizes bs ! nat (block_id cell)"
    by (simp add: q_eq cell_area_def)
  then have p1: "0 \<le> position cell"
    and p2: "position cell + block_size (block row) * col_sizes bs ! nat (block_id cell)
               \<le> total_nonzeros bs"
    using prefix_sums_bounds [OF area_nonneg, of k 0] k q_k
    by (simp_all add: pp sum_cell_area)
  show ?thesis
    using c1 c2 c3 r1 r2 r3 p1 p2 by (simp add: q_eq cell_in_bounds_def)
qed

lemma invariant_lengths:
  assumes "descriptor_invariant bs"
  shows "block_ids_ok bs" and "length (col_positions bs) = length (col_sizes bs)"
  using assms by (simp_all add: descriptor_invariant_def)

subsection \<open>Loops that accumulate\<close>

text \<open>A loop whose every step adds \<open>h q j\<close> to what is observed at \<open>j\<close> adds the sum
  of them.\<close>

lemma for_each_pointwise:
  fixes obs :: "'s \<Rightarrow> 'i \<Rightarrow> real"
  assumes step: "\<And>q s. q \<in> set qs \<Longrightarrow> I s \<Longrightarrow>
                   \<exists>s'. body q s = Inr s' \<and> I s' \<and> (\<forall>j. J j \<longrightarrow> obs s' j = obs s j + h q j)"
    and init: "I s"
  shows "\<exists>s'. for_each qs body s = Inr s' \<and> I s'
               \<and> (\<forall>j. J j \<longrightarrow> obs s' j = obs s j + (\<Sum>q\<leftarrow>qs. h q j))"
  using assms
proof (induction qs arbitrary: s)
  case Nil
  then show ?case by simp
next
  case (Cons q qs)
  from Cons.prems(1) [of q s] Cons.prems(2) obtain s1 where
    s1: "body q s = Inr s1" "I s1" "\<forall>j. J j \<longrightarrow> obs s1 j = obs s j + h q j"
    by auto
  have "\<exists>s'. for_each qs body s1 = Inr s' \<and> I s'
               \<and> (\<forall>j. J j \<longrightarrow> obs s' j = obs s1 j + (\<Sum>q\<leftarrow>qs. h q j))"
    by (rule Cons.IH) (use Cons.prems(1) s1(2) in auto)
  then obtain s2 where
    s2: "for_each qs body s1 = Inr s2" "I s2"
        "\<forall>j. J j \<longrightarrow> obs s2 j = obs s1 j + (\<Sum>q\<leftarrow>qs. h q j)"
    by auto
  show ?case
    using s1 s2 by (simp add: add.assoc)
qed

lemma set_indices: "ix \<in> set (indices n) \<longleftrightarrow> 0 \<le> ix \<and> ix < n"
  by (auto simp: indices_def image_iff intro: bexI [of _ "nat ix"])

lemma add_at_in_range:
  assumes "0 \<le> i" and "i < int (length xs)"
  shows "add_at xs i d = Inr (xs[nat i := xs ! nat i + d])"
  using assms by (simp add: add_at_def load_def store_def)

lemma sum_terms:
  assumes "\<And>k. k \<in> set ks \<Longrightarrow> summand k = Inr (f k)"
  shows "for_each ks (\<lambda>k s. seq (summand k) (\<lambda>t. Inr (s + t))) a = Inr (a + (\<Sum>k\<leftarrow>ks. f k))"
  using assms by (induction ks arbitrary: a) (simp_all add: add.assoc)

lemma sum_over_eq:
  assumes "\<And>k. 0 \<le> k \<Longrightarrow> k < n \<Longrightarrow> summand k = Inr (f k)"
  shows "sum_over n summand = Inr (\<Sum>k\<leftarrow>indices n. f k)"
  unfolding sum_over_def using assms by (subst sum_terms [where f = f]) (simp_all add: set_indices)

lemma accumulate_pointwise:
  fixes out :: "real list"
  assumes val: "\<And>ix. 0 \<le> ix \<Longrightarrow> ix < n \<Longrightarrow> val ix = Inr (g ix)"
    and off: "0 \<le> off" "off + n \<le> int (length out)"
  shows "\<exists>out'. accumulate n off val out = Inr out' \<and> length out' = length out
           \<and> (\<forall>j. j < length out \<longrightarrow>
                 out' ! j = out ! j + (\<Sum>ix\<leftarrow>indices n. if off + ix = int j then g ix else 0))"
  unfolding accumulate_def
proof (rule for_each_pointwise
    [where I = "\<lambda>s. length s = length out" and obs = "\<lambda>s j. s ! j"
       and J = "\<lambda>j. j < length out"
       and h = "\<lambda>ix j. if off + ix = int j then g ix else 0"])
  show "length out = length out" ..
next
  fix ix and s :: "real list"
  assume ix: "ix \<in> set (indices n)" and len: "length s = length out"
  then have range: "0 \<le> off + ix" "off + ix < int (length s)" and v: "val ix = Inr (g ix)"
    using off val by (simp_all add: set_indices)
  have "seq (val ix) (add_at s (off + ix)) = Inr (s[nat (off + ix) := s ! nat (off + ix) + g ix])"
    using v add_at_in_range [OF range] by simp
  moreover have "(s[nat (off + ix) := s ! nat (off + ix) + g ix]) ! j
                   = s ! j + (if off + ix = int j then g ix else 0)"
    if "j < length out" for j
  proof (cases "off + ix = int j")
    case True
    then have "nat (off + ix) = j" by simp
    then show ?thesis using that len True by simp
  next
    case False
    then have "nat (off + ix) \<noteq> j" using range(1) by linarith
    then show ?thesis using False by simp
  qed
  ultimately show "\<exists>s'. seq (val ix) (add_at s (off + ix)) = Inr s' \<and> length s' = length out
                     \<and> (\<forall>j. j < length out \<longrightarrow>
                           s' ! j = s ! j + (if off + ix = int j then g ix else 0))"
    using len by simp
qed

subsection \<open>Sums over the scalars of a block\<close>

lemma entry_index_bounds:
  fixes r k nrow ncol :: int
  assumes "0 \<le> r" "r < nrow" "0 \<le> k" "k < ncol"
  shows "0 \<le> r * ncol + k" and "r * ncol + k < nrow * ncol"
proof -
  have "0 \<le> r * ncol" using assms by simp
  then show "0 \<le> r * ncol + k" using assms by simp
  have "(r + 1) * ncol \<le> nrow * ncol"
    using assms by (intro mult_right_mono) simp_all
  then show "r * ncol + k < nrow * ncol"
    using assms by (simp add: algebra_simps)
qed

lemma sum_list_if_distrib:
  "(if P then (\<Sum>x\<leftarrow>xs. f x) else 0) = (\<Sum>x\<leftarrow>xs. if P then f x else (0::real))"
  by simp

lemma sum_list_swap:
  "(\<Sum>x\<leftarrow>xs. \<Sum>y\<leftarrow>ys. f x y) = (\<Sum>y\<leftarrow>ys. \<Sum>x\<leftarrow>xs. (f x y :: real))"
  by (induction xs) (simp_all add: sum_list_addf)

lemma sum_entry_list:
  "(\<Sum>(r, k)\<leftarrow>entry_list nrow ncol. F r k) = (\<Sum>r\<leftarrow>indices nrow. \<Sum>k\<leftarrow>indices ncol. (F r k :: real))"
  by (simp add: entry_list_def sum_list_map_concat comp_def)

lemma sum_block_triples:
  "(\<Sum>(r, c, v)\<leftarrow>block_triples A (rb, cell, cs, cp). G r c v)
     = (\<Sum>r\<leftarrow>indices (block_size rb). \<Sum>k\<leftarrow>indices cs.
          (G (block_position rb + r) (cp + k) (A ! nat (position cell + r * cs + k)) :: real))"
  by (simp add: block_triples_def comp_def case_prod_unfold entry_list_def sum_list_map_concat)

lemma load_in_range:
  assumes "0 \<le> i" and "i < int (length xs)"
  shows "load xs i = Inr (xs ! nat i)"
  using assms by (simp add: load_def)

lemma block_loads:
  assumes b: "cell_in_bounds nr nc nnz (rb, cell, cs, cp)" and A: "nnz \<le> int (length A)"
    and r: "0 \<le> r" "r < block_size rb" and k: "0 \<le> k" "k < cs"
  shows "load A (position cell + r * cs + k) = Inr (A ! nat (position cell + r * cs + k))"
proof -
  from entry_index_bounds [OF r k]
  have "0 \<le> r * cs + k" "r * cs + k < block_size rb * cs" .
  with b A show ?thesis
    by (intro load_in_range) (simp_all add: cell_in_bounds_def)
qed

subsection \<open>The products with a vector\<close>

lemma MatrixVectorMultiply_cell:
  fixes A :: "real list"
  assumes b: "cell_in_bounds nr nc nnz (rb, cell, cs, cp)" and A: "nnz \<le> int (length A)"
    and x: "nc \<le> int (length x)" and y: "nr \<le> int (length y)"
  shows "\<exists>y'. MatrixVectorMultiply A (position cell) (block_size rb) cs x cp
                 y (block_position rb) = Inr y'
           \<and> length y' = length y
           \<and> (\<forall>j. j < length y \<longrightarrow>
                 y' ! j = y ! j + (\<Sum>(r, c, v)\<leftarrow>block_triples A (rb, cell, cs, cp).
                                      if r = int j then v * x ! nat c else 0))"
proof -
  let ?g = "\<lambda>r. \<Sum>k\<leftarrow>indices cs. A ! nat (position cell + r * cs + k) * x ! nat (cp + k)"
  have val: "sum_over cs (\<lambda>k. seq (load A (position cell + r * cs + k)) (\<lambda>a.
                                  seq (load x (cp + k)) (\<lambda>bk. Inr (a * bk)))) = Inr (?g r)"
    if r: "0 \<le> r" "r < block_size rb" for r
  proof (rule sum_over_eq)
    fix k :: int assume k: "0 \<le> k" "k < cs"
    have "load x (cp + k) = Inr (x ! nat (cp + k))"
      using b x k by (intro load_in_range) (simp_all add: cell_in_bounds_def)
    then show "seq (load A (position cell + r * cs + k)) (\<lambda>a.
                 seq (load x (cp + k)) (\<lambda>bk. Inr (a * bk)))
               = Inr (A ! nat (position cell + r * cs + k) * x ! nat (cp + k))"
      using block_loads [OF b A r k] by simp
  qed
  have off: "0 \<le> block_position rb" "block_position rb + block_size rb \<le> int (length y)"
    using b y by (simp_all add: cell_in_bounds_def)
  from accumulate_pointwise [of "block_size rb" _ ?g, OF val off]
  obtain y' where y': "MatrixVectorMultiply A (position cell) (block_size rb) cs x cp
                         y (block_position rb) = Inr y'" "length y' = length y"
    and pt: "\<forall>j. j < length y \<longrightarrow>
               y' ! j = y ! j + (\<Sum>r\<leftarrow>indices (block_size rb).
                                    if block_position rb + r = int j then ?g r else 0)"
    unfolding MatrixVectorMultiply_def by blast
  have "(\<Sum>r\<leftarrow>indices (block_size rb). if block_position rb + r = int j then ?g r else 0)
          = (\<Sum>(r, c, v)\<leftarrow>block_triples A (rb, cell, cs, cp).
               if r = int j then v * x ! nat c else 0)" for j
    unfolding sum_block_triples by (simp add: sum_list_if_distrib cong: if_cong)
  with y' pt show ?thesis by simp
qed

lemma MatrixTransposeVectorMultiply_cell:
  fixes A :: "real list"
  assumes b: "cell_in_bounds nr nc nnz (rb, cell, cs, cp)" and A: "nnz \<le> int (length A)"
    and x: "nr \<le> int (length x)" and y: "nc \<le> int (length y)"
  shows "\<exists>y'. MatrixTransposeVectorMultiply A (position cell) (block_size rb) cs
                 x (block_position rb) y cp = Inr y'
           \<and> length y' = length y
           \<and> (\<forall>j. j < length y \<longrightarrow>
                 y' ! j = y ! j + (\<Sum>(r, c, v)\<leftarrow>block_triples A (rb, cell, cs, cp).
                                      if c = int j then v * x ! nat r else 0))"
proof -
  let ?g = "\<lambda>k. \<Sum>r\<leftarrow>indices (block_size rb).
                   A ! nat (position cell + r * cs + k) * x ! nat (block_position rb + r)"
  have val: "sum_over (block_size rb) (\<lambda>r. seq (load A (position cell + r * cs + k)) (\<lambda>a.
               seq (load x (block_position rb + r)) (\<lambda>br. Inr (a * br)))) = Inr (?g k)"
    if k: "0 \<le> k" "k < cs" for k
  proof (rule sum_over_eq)
    fix r :: int assume r: "0 \<le> r" "r < block_size rb"
    have "load x (block_position rb + r) = Inr (x ! nat (block_position rb + r))"
      using b x r by (intro load_in_range) (simp_all add: cell_in_bounds_def)
    then show "seq (load A (position cell + r * cs + k)) (\<lambda>a.
                 seq (load x (block_position rb + r)) (\<lambda>br. Inr (a * br)))
               = Inr (A ! nat (position cell + r * cs + k) * x ! nat (block_position rb + r))"
      using block_loads [OF b A r k] by simp
  qed
  have off: "0 \<le> cp" "cp + cs \<le> int (length y)"
    using b y by (simp_all add: cell_in_bounds_def)
  from accumulate_pointwise [of cs _ ?g, OF val off]
  obtain y' where y': "MatrixTransposeVectorMultiply A (position cell) (block_size rb) cs
                         x (block_position rb) y cp = Inr y'" "length y' = length y"
    and pt: "\<forall>j. j < length y \<longrightarrow>
               y' ! j = y ! j + (\<Sum>k\<leftarrow>indices cs. if cp + k = int j then ?g k else 0)"
    unfolding MatrixTransposeVectorMultiply_def by blast
  have "(\<Sum>k\<leftarrow>indices cs. if cp + k = int j then ?g k else 0)
          = (\<Sum>(r, c, v)\<leftarrow>block_triples A (rb, cell, cs, cp).
               if c = int j then v * x ! nat r else 0)" for j
    unfolding sum_block_triples
    by (subst sum_list_swap) (simp add: sum_list_if_distrib cong: if_cong)
  with y' pt show ?thesis by simp
qed

lemma sum_stored_triples:
  "(\<Sum>q\<leftarrow>cell_list (block_structure m). \<Sum>t\<leftarrow>block_triples (values_buf m) q. f t)
     = (\<Sum>t\<leftarrow>stored_triples m. (f t :: real))"
  by (simp add: stored_triples_def sum_list_map_concat comp_def)

lemma matrix_invariant_bounds:
  assumes "matrix_invariant m" and "q \<in> set (cell_list (block_structure m))"
  shows "cell_in_bounds (num_rows m) (num_cols m) (num_nonzeros m) q"
  using assms invariant_cell_in_bounds [of "block_structure m" q]
  by (simp add: matrix_invariant_def)

lemma RightMultiply_pointwise:
  fixes m :: "real BlockSparseMatrix"
  assumes inv: "matrix_invariant m"
    and x: "num_cols m \<le> int (length x)" and y: "num_rows m \<le> int (length y)"
  shows "\<exists>y'. fst (RightMultiply dcheck (Some x) (Some y) m) = Inr y' \<and> length y' = length y
           \<and> (\<forall>j. j < length y \<longrightarrow>
                 y' ! j = y ! j + (\<Sum>(r, c, v)\<leftarrow>stored_triples m.
                                      if r = int j then v * x ! nat c else 0))"
proof -
  let ?bs = "block_structure m" and ?A = "values_buf m"
  let ?h = "\<lambda>q j. \<Sum>(r, c, v)\<leftarrow>block_triples ?A q. if r = int j then v * x ! nat c else 0"
  from inv have d: "descriptor_invariant ?bs" and A: "num_nonzeros m \<le> int (length ?A)"
    by (simp_all add: matrix_invariant_def)
  have "\<exists>y'. for_each (cell_list ?bs)
               (\<lambda>(rb, cell, cs, cp) yv.
                  MatrixVectorMultiply ?A (position cell) (block_size rb) cs x cp
                    yv (block_position rb)) y = Inr y'
          \<and> length y' = length y
          \<and> (\<forall>j. j < length y \<longrightarrow> y' ! j = y ! j + (\<Sum>q\<leftarrow>cell_list ?bs. ?h q j))"
  proof (rule for_each_pointwise [where I = "\<lambda>s. length s = length y"
        and obs = "\<lambda>s j. s ! j" and J = "\<lambda>j. j < length y" and h = ?h])
    show "length y = length y" ..
  next
    fix q and s :: "real list"
    assume q: "q \<in> set (cell_list ?bs)" and len: "length s = length y"
    obtain rb cell cs cp where q_eq: "q = (rb, cell, cs, cp)" by (cases q) auto
    have b: "cell_in_bounds (num_rows m) (num_cols m) (num_nonzeros m) (rb, cell, cs, cp)"
      using matrix_invariant_bounds [OF inv q] by (simp add: q_eq)
    from MatrixVectorMultiply_cell [OF b A x, of s] y len
    show "\<exists>s'. (case q of (rb, cell, cs, cp) \<Rightarrow> \<lambda>yv.
                  MatrixVectorMultiply ?A (position cell) (block_size rb) cs x cp
                    yv (block_position rb)) s = Inr s'
            \<and> length s' = length y
            \<and> (\<forall>j. j < length y \<longrightarrow> s' ! j = s ! j + ?h q j)"
      by (simp add: q_eq)
  qed
  then show ?thesis
    unfolding sum_stored_triples
    by (simp add: RightMultiply_def deref_def
        for_each_cell_flat [OF invariant_lengths [OF d]])
qed

lemma LeftMultiply_pointwise:
  fixes m :: "real BlockSparseMatrix"
  assumes inv: "matrix_invariant m"
    and x: "num_rows m \<le> int (length x)" and y: "num_cols m \<le> int (length y)"
  shows "\<exists>y'. fst (LeftMultiply dcheck (Some x) (Some y) m) = Inr y' \<and> length y' = length y
           \<and> (\<forall>j. j < length y \<longrightarrow>
                 y' ! j = y ! j + (\<Sum>(r, c, v)\<leftarrow>stored_triples m.
                                      if c = int j then v * x ! nat r else 0))"
proof -
  let ?bs = "block_structure m" and ?A = "values_buf m"
  let ?h = "\<lambda>q j. \<Sum>(r, c, v)\<leftarrow>block_triples ?A q. if c = int j then v * x ! nat r else 0"
  from inv have d: "descriptor_invariant ?bs" and A: "num_nonzeros m \<le> int (length ?A)"
    by (simp_all add: matrix_invariant_def)
  have "\<exists>y'. for_each (cell_list ?bs)
               (\<lambda>(rb, cell, cs, cp) yv.
                  MatrixTransposeVectorMultiply ?A (position cell) (block_size rb) cs
                    x (block_position rb) yv cp) y = Inr y'
          \<and> length y' = length y
          \<and> (\<forall>j. j < length y \<longrightarrow> y' ! j = y ! j + (\<Sum>q\<leftarrow>cell_list ?bs. ?h q j))"
  proof (rule for_each_pointwise [where I = "\<lambda>s. length s = length y"
        and obs = "\<lambda>s j. s ! j" and J = "\<lambda>j. j < length y" and h = ?h])
    show "length y = length y" ..
  next
    fix q and s :: "real list"
    assume q: "q \<in> set (cell_list ?bs)" and len: "length s = length y"
    obtain rb cell cs cp where q_eq: "q = (rb, cell, cs, cp)" by (cases q) auto
    have b: "cell_in_bounds (num_rows m) (num_cols m) (num_nonzeros m) (rb, cell, cs, cp)"
      using matrix_invariant_bounds [OF inv q] by (simp add: q_eq)
    from MatrixTransposeVectorMultiply_cell [OF b A x, of s] y len
    show "\<exists>s'. (case q of (rb, cell, cs, cp) \<Rightarrow> \<lambda>yv.
                  MatrixTransposeVectorMultiply ?A (position cell) (block_size rb) cs
                    x (block_position rb) yv cp) s = Inr s'
            \<and> length s' = length y
            \<and> (\<forall>j. j < length y \<longrightarrow> s' ! j = s ! j + ?h q j)"
      by (simp add: q_eq)
  qed
  then show ?thesis
    unfolding sum_stored_triples
    by (simp add: LeftMultiply_def deref_def
        for_each_cell_flat [OF invariant_lengths [OF d]])
qed

subsection \<open>Where the stored scalars lie\<close>

lemma set_entry_list:
  "(r, k) \<in> set (entry_list nrow ncol) \<longleftrightarrow> 0 \<le> r \<and> r < nrow \<and> 0 \<le> k \<and> k < ncol"
  by (auto simp: entry_list_def set_indices image_iff)

lemma stored_triple_bounds:
  assumes inv: "matrix_invariant m" and t: "(r, c, v) \<in> set (stored_triples m)"
  shows "0 \<le> r \<and> r < num_rows m \<and> 0 \<le> c \<and> c < num_cols m
         \<and> (\<exists>i. i < length (values_buf m) \<and> v = values_buf m ! i)"
proof -
  from t obtain q where q: "q \<in> set (cell_list (block_structure m))"
    and tq: "(r, c, v) \<in> set (block_triples (values_buf m) q)"
    by (auto simp: stored_triples_def)
  obtain rb cell cs cp where q_eq: "q = (rb, cell, cs, cp)" by (cases q) auto
  from tq obtain r0 k0 where e: "(r0, k0) \<in> set (entry_list (block_size rb) cs)"
    and r: "r = block_position rb + r0" and c: "c = cp + k0"
    and v: "v = values_buf m ! nat (position cell + r0 * cs + k0)"
    by (auto simp: block_triples_def q_eq)
  from e have r0: "0 \<le> r0" "r0 < block_size rb" and k0: "0 \<le> k0" "k0 < cs"
    by (simp_all add: set_entry_list)
  have b: "cell_in_bounds (num_rows m) (num_cols m) (num_nonzeros m) (rb, cell, cs, cp)"
    using matrix_invariant_bounds [OF inv q] by (simp add: q_eq)
  from entry_index_bounds [OF r0 k0]
  have ix: "0 \<le> r0 * cs + k0" "r0 * cs + k0 < block_size rb * cs" .
  have len: "int (length (values_buf m)) = num_nonzeros m"
    using inv by (simp add: matrix_invariant_def)
  have "0 \<le> position cell + r0 * cs + k0"
    and "position cell + r0 * cs + k0 < int (length (values_buf m))"
    using b ix len by (simp_all add: cell_in_bounds_def)
  then have "nat (position cell + r0 * cs + k0) < length (values_buf m)"
    by (simp add: nat_less_iff)
  with v have "\<exists>i. i < length (values_buf m) \<and> v = values_buf m ! i" by blast
  moreover have "0 \<le> r \<and> r < num_rows m \<and> 0 \<le> c \<and> c < num_cols m"
    using b r0 k0 by (simp add: r c cell_in_bounds_def)
  ultimately show ?thesis by simp
qed

lemma matrix_invariant_nonneg:
  assumes "matrix_invariant m"
  shows "0 \<le> num_rows m" and "0 \<le> num_cols m" and "0 \<le> num_nonzeros m"
  using assms
  by (auto simp: matrix_invariant_def descriptor_invariant_def total_rows_def total_cols_def
      intro!: sum_list_nonneg)

subsection \<open>A zeroed matrix\<close>

lemma SetZero_invariant:
  assumes inv: "matrix_invariant m"
  shows "SetZero m = (Inr (), m\<lparr>values_buf := replicate (length (values_buf m)) 0\<rparr>)"
    and "matrix_invariant (m\<lparr>values_buf := replicate (length (values_buf m)) 0\<rparr>)"
proof -
  have len: "int (length (values_buf m)) = num_nonzeros m"
    using inv by (simp add: matrix_invariant_def)
  then have "nat (num_nonzeros m) = length (values_buf m)" by linarith
  with len show "SetZero m = (Inr (), m\<lparr>values_buf := replicate (length (values_buf m)) 0\<rparr>)"
    by (simp add: SetZero_def fill_zero_def)
  show "matrix_invariant (m\<lparr>values_buf := replicate (length (values_buf m)) 0\<rparr>)"
    using inv by (simp add: matrix_invariant_def)
qed

subsection \<open>Dot products and sums over the stored scalars\<close>

lemma sum_list_nth_sum: "sum_list xs = (\<Sum>i<length xs. (xs ! i :: real))"
  by (simp add: sum_list_sum_nth atLeast0LessThan)

lemma dot_sum:
  assumes "length xs = length ys"
  shows "dot xs ys = (\<Sum>i<length xs. xs ! i * ys ! i)"
  using assms by (simp add: dot_def sum_list_nth_sum)

lemma contribution_nth:
  assumes "length a = length b" and "i < length a"
  shows "contribution a b ! i = a ! i - b ! i" and "length (contribution a b) = length a"
  using assms by (simp_all add: contribution_def)

lemma sum_keyed:
  fixes f :: "'t \<Rightarrow> real"
  assumes "\<And>t. t \<in> set ts \<Longrightarrow> 0 \<le> key t \<and> key t < int n"
  shows "(\<Sum>i<n. (\<Sum>t\<leftarrow>ts. if key t = int i then f t else 0) * w i)
           = (\<Sum>t\<leftarrow>ts. f t * w (nat (key t)))"
  using assms
proof (induction ts)
  case Nil
  show ?case by simp
next
  case (Cons t ts)
  have key: "0 \<le> key t" "nat (key t) < n"
    using Cons.prems [of t] by (simp_all add: nat_less_iff)
  have "(\<Sum>i<n. (if key t = int i then f t else 0) * w i)
          = (\<Sum>i<n. if i = nat (key t) then f t * w i else 0)"
    using key by (intro sum.cong) auto
  also have "\<dots> = f t * w (nat (key t))"
    using key by simp
  finally have one: "(\<Sum>i<n. (if key t = int i then f t else 0) * w i) = f t * w (nat (key t))" .
  have "(\<Sum>i<n. (\<Sum>t\<leftarrow>t # ts. if key t = int i then f t else 0) * w i)
          = (\<Sum>i<n. (if key t = int i then f t else 0) * w i)
            + (\<Sum>i<n. (\<Sum>t\<leftarrow>ts. if key t = int i then f t else 0) * w i)"
    by (simp add: distrib_right sum.distrib)
  then show ?case
    using one Cons by simp
qed

subsection \<open>SetZero, then RightMultiply\<close>

lemma double_add_zero: "d + 0 = (d::double)"
  by (cases d) (simp_all add: zero_double_def)

lemma double_zero_times: "isfinite d \<Longrightarrow> 0 * d = (0::double)"
  by (cases d) (simp_all add: zero_double_def)

lemma for_each_unchanged:
  assumes "\<And>q. q \<in> set qs \<Longrightarrow> body q s = Inr s"
  shows "for_each qs body s = Inr s"
  using assms by (induction qs) simp_all

lemma sum_over_zero:
  fixes summand :: "int \<Rightarrow> fault + 'a::{zero,plus}"
  assumes "\<And>k. 0 \<le> k \<Longrightarrow> k < n \<Longrightarrow> summand k = Inr 0" and "(0::'a) + 0 = 0"
  shows "sum_over n summand = Inr 0"
  unfolding sum_over_def
  by (rule for_each_unchanged) (simp add: set_indices assms)

lemma accumulate_zero:
  fixes out :: "('a::{zero,plus}) list"
  assumes val: "\<And>ix. 0 \<le> ix \<Longrightarrow> ix < n \<Longrightarrow> val ix = Inr 0"
    and off: "0 \<le> off" "off + n \<le> int (length out)"
    and out: "\<forall>v \<in> set out. v + 0 = v"
  shows "accumulate n off val out = Inr out"
  unfolding accumulate_def
proof (rule for_each_unchanged)
  fix ix assume "ix \<in> set (indices n)"
  then have ix: "0 \<le> ix" "ix < n" by (simp_all add: set_indices)
  then have range: "0 \<le> off + ix" "off + ix < int (length out)" using off by simp_all
  then have "nat (off + ix) < length out" by linarith
  then have "out ! nat (off + ix) + 0 = out ! nat (off + ix)" using out by simp
  then show "seq (val ix) (\<lambda>t. add_at out (off + ix) t) = Inr out"
    using val [OF ix] range by (simp add: add_at_def load_def store_def)
qed

text \<open>A block of zeros adds nothing to \<open>y\<close>, provided a zero times an element of \<open>x\<close>
  is zero and adding zero changes no element of \<open>y\<close>.\<close>

lemma MatrixVectorMultiply_zero:
  fixes A :: "('a::{zero,plus,times}) list"
  assumes b: "cell_in_bounds nr nc nnz (rb, cell, cs, cp)" and A: "nnz \<le> int (length A)"
    and zero: "\<forall>a \<in> set A. a = 0"
    and x: "nc \<le> int (length x)" and y: "nr \<le> int (length y)"
    and xv: "\<forall>v \<in> set x. 0 * v = 0" and yv: "\<forall>v \<in> set y. v + 0 = v"
    and z: "(0::'a) + 0 = 0"
  shows "MatrixVectorMultiply A (position cell) (block_size rb) cs x cp y (block_position rb)
           = Inr y"
  unfolding MatrixVectorMultiply_def
proof (rule accumulate_zero)
  show "0 \<le> block_position rb" and "block_position rb + block_size rb \<le> int (length y)"
    using b y by (simp_all add: cell_in_bounds_def)
  show "\<forall>v \<in> set y. v + 0 = v" by (rule yv)
next
  fix r assume r: "0 \<le> r" "r < block_size rb"
  show "sum_over cs (\<lambda>k. seq (load A (position cell + r * cs + k))
                        (\<lambda>a. seq (load x (cp + k)) (\<lambda>bk. Inr (a * bk)))) = Inr 0"
  proof (rule sum_over_zero)
    show "(0::'a) + 0 = 0" by (rule z)
  next
    fix k assume k: "0 \<le> k" "k < cs"
    have la: "load A (position cell + r * cs + k) = Inr (A ! nat (position cell + r * cs + k))"
      by (rule block_loads [OF b A r k])
    then have "0 \<le> position cell + r * cs + k \<and> position cell + r * cs + k < int (length A)"
      by (simp add: load_def split: if_splits)
    then have "nat (position cell + r * cs + k) < length A" by linarith
    then have a0: "A ! nat (position cell + r * cs + k) = 0" using zero by simp
    have range: "0 \<le> cp + k" "cp + k < int (length x)"
      using b x k by (simp_all add: cell_in_bounds_def)
    then have "nat (cp + k) < length x" by linarith
    then have "0 * x ! nat (cp + k) = 0" using xv by simp
    then show "seq (load A (position cell + r * cs + k))
                 (\<lambda>a. seq (load x (cp + k)) (\<lambda>bk. Inr (a * bk))) = Inr 0"
      using la a0 load_in_range [OF range] by simp
  qed
qed

lemma RightMultiply_zero:
  fixes m :: "('a::{zero,plus,times}) BlockSparseMatrix"
  assumes inv: "matrix_invariant m" and zero: "\<forall>a \<in> set (values_buf m). a = 0"
    and x: "int (length x) = num_cols m" and y: "int (length y) = num_rows m"
    and xv: "\<forall>v \<in> set x. 0 * v = 0" and yv: "\<forall>v \<in> set y. v + 0 = v"
    and z: "(0::'a) + 0 = 0"
  shows "RightMultiply dcheck (Some x) (Some y) m = (Inr y, m)"
proof -
  let ?bs = "block_structure m"
  have d: "descriptor_invariant ?bs" using inv by (simp add: matrix_invariant_def)
  have len: "int (length (values_buf m)) = num_nonzeros m"
    using inv by (simp add: matrix_invariant_def)
  have "for_each (cell_list ?bs) (\<lambda>(rb, cell, cs, cp) yv.
            MatrixVectorMultiply (values_buf m) (position cell) (block_size rb) cs
              x cp yv (block_position rb)) y = Inr y"
  proof (rule for_each_unchanged)
    fix q assume q: "q \<in> set (cell_list ?bs)"
    obtain rb cell cs cp where q_eq: "q = (rb, cell, cs, cp)" by (cases q) auto
    have b: "cell_in_bounds (num_rows m) (num_cols m) (num_nonzeros m) (rb, cell, cs, cp)"
      using matrix_invariant_bounds [OF inv q] by (simp add: q_eq)
    show "(case q of (rb, cell, cs, cp) \<Rightarrow> \<lambda>yv.
            MatrixVectorMultiply (values_buf m) (position cell) (block_size rb) cs
              x cp yv (block_position rb)) y = Inr y"
      unfolding q_eq prod.case
      by (rule MatrixVectorMultiply_zero [OF b _ zero _ _ xv yv z]) (simp_all add: len x y)
  qed
  then show ?thesis
    by (simp add: RightMultiply_def deref_def for_each_cell_flat [OF invariant_lengths [OF d]])
qed

text \<open>
  C6, as the claim states it, fails: \<open>x\<close> is an array of \<^verbatim>\<open>double\<close>, and the product of
  a stored zero and an infinity is NaN. On the example matrix, zeroed, an \<open>x\<close> whose first
  element is \<open>+\<infinity>\<close> turns the first element of \<open>y\<close> from 7 into NaN.
\<close>

theorem SetZero_then_RightMultiply_counterexample:
  "matrix_invariant example_double_matrix
   \<and> int (length [PlusInfinity, Finite 10, Finite 100]) = num_cols example_double_matrix
   \<and> int (length [Finite 7, Finite 8, Finite 9]) = num_rows example_double_matrix
   \<and> fst (SetZero example_double_matrix) = Inr ()
   \<and> fst (RightMultiply True (Some [PlusInfinity, Finite 10, Finite 100])
            (Some [Finite 7, Finite 8, Finite 9]) (snd (SetZero example_double_matrix)))
       = Inr [NaN, Finite 8, Finite 9]"
  by code_simp

text \<open>
  C6, amended. On a matrix that satisfies the invariant, \<^verbatim>\<open>SetZero\<close> followed by
  \<^verbatim>\<open>RightMultiply\<close> with a vector \<open>x\<close> of length \<open>num_cols\<close> whose elements are all
  finite leaves an output vector \<open>y\<close> of length \<open>num_rows\<close> exactly as it was, whatever
  \<open>y\<close> holds (infinities and NaN included).
\<close>

theorem SetZero_then_RightMultiply:
  fixes m :: "double BlockSparseMatrix"
  assumes inv: "matrix_invariant m"
    and x: "int (length x) = num_cols m" and y: "int (length y) = num_rows m"
    and finite: "list_all isfinite x"
  shows "\<exists>m0. SetZero m = (Inr (), m0)
           \<and> RightMultiply dcheck (Some x) (Some y) m0 = (Inr y, m0)"
proof -
  let ?m0 = "m\<lparr>values_buf := replicate (length (values_buf m)) 0\<rparr>"
  have zero: "SetZero m = (Inr (), ?m0)" and inv0: "matrix_invariant ?m0"
    using SetZero_invariant [OF inv] by simp_all
  have "RightMultiply dcheck (Some x) (Some y) ?m0 = (Inr y, ?m0)"
  proof (rule RightMultiply_zero [OF inv0])
    show "\<forall>a \<in> set (values_buf ?m0). a = 0" by simp
    show "int (length x) = num_cols ?m0" "int (length y) = num_rows ?m0"
      using x y by simp_all
    show "\<forall>v \<in> set x. 0 * v = 0"
      using finite by (simp add: list_all_iff double_zero_times)
    show "\<forall>v \<in> set y. v + 0 = v" by (simp add: double_add_zero)
    show "(0::double) + 0 = 0" by (simp add: double_add_zero)
  qed
  with zero show ?thesis by blast
qed

theorem SetZero_then_RightMultiply_witness:
  "matrix_invariant example_double_matrix
   \<and> int (length [Finite 1, Finite 10, Finite 100]) = num_cols example_double_matrix
   \<and> int (length [PlusInfinity, NaN, Finite 9]) = num_rows example_double_matrix
   \<and> list_all isfinite [Finite 1, Finite 10, Finite 100]
   \<and> (\<exists>m0. SetZero example_double_matrix = (Inr (), m0)
          \<and> RightMultiply True (Some [Finite 1, Finite 10, Finite 100])
                (Some [PlusInfinity, NaN, Finite 9]) m0
              = (Inr [PlusInfinity, NaN, Finite 9], m0))"
proof -
  have h1: "matrix_invariant example_double_matrix" by code_simp
  have h2: "int (length [Finite 1, Finite 10, Finite 100]) = num_cols example_double_matrix"
    by code_simp
  have h3: "int (length [PlusInfinity, NaN, Finite 9]) = num_rows example_double_matrix"
    by code_simp
  have h4: "list_all isfinite [Finite 1, Finite 10, Finite 100]" by simp
  from SetZero_then_RightMultiply [OF h1 h2 h3 h4, of True] h1 h2 h3 h4
  show ?thesis by blast
qed

subsection \<open>The adjoint identity\<close>

lemma dot_contribution:
  assumes len: "length a = length b" "length w = length b"
    and pt: "\<forall>j. j < length b \<longrightarrow> a ! j = b ! j + h j"
  shows "dot (contribution a b) w = (\<Sum>i<length b. h i * w ! i)"
    and "dot w (contribution a b) = (\<Sum>i<length b. h i * w ! i)"
proof -
  have c: "contribution a b ! i = h i" if "i < length b" for i
    using that len pt by (simp add: contribution_nth)
  have l: "length (contribution a b) = length b"
    using len by (simp add: contribution_def)
  show "dot (contribution a b) w = (\<Sum>i<length b. h i * w ! i)"
    using len l c by (simp add: dot_sum)
  show "dot w (contribution a b) = (\<Sum>i<length b. h i * w ! i)"
    using len l c by (simp add: dot_sum mult.commute)
qed

lemma dot_contribution_rows:
  assumes inv: "matrix_invariant m" and y: "int (length y) = num_rows m"
    and len: "length ax = length y0" "length y0 = length y"
    and pt: "\<forall>j. j < length y0 \<longrightarrow>
               ax ! j = y0 ! j + (\<Sum>(r, c, v)\<leftarrow>stored_triples m.
                                     if r = int j then v * x ! nat c else 0)"
  shows "dot (contribution ax y0) y
           = (\<Sum>(r, c, v)\<leftarrow>stored_triples m. v * x ! nat c * y ! nat r)"
proof -
  have "dot (contribution ax y0) y
          = (\<Sum>i<length y0. (\<Sum>(r, c, v)\<leftarrow>stored_triples m.
                if r = int i then v * x ! nat c else 0) * y ! i)"
    using len pt by (intro dot_contribution) simp_all
  also have "\<dots> = (\<Sum>i<length y. (\<Sum>t\<leftarrow>stored_triples m.
                if fst t = int i then snd (snd t) * x ! nat (fst (snd t)) else 0) * y ! i)"
    using len by (simp add: case_prod_unfold)
  also have "\<dots> = (\<Sum>t\<leftarrow>stored_triples m.
                       snd (snd t) * x ! nat (fst (snd t)) * y ! nat (fst t))"
  proof (rule sum_keyed)
    fix t assume "t \<in> set (stored_triples m)"
    then show "0 \<le> fst t \<and> fst t < int (length y)"
      using stored_triple_bounds [OF inv, of "fst t" "fst (snd t)" "snd (snd t)"] y by simp
  qed
  finally show ?thesis by (simp add: case_prod_unfold)
qed

lemma dot_contribution_cols:
  assumes inv: "matrix_invariant m" and x: "int (length x) = num_cols m"
    and len: "length aty = length x0" "length x0 = length x"
    and pt: "\<forall>j. j < length x0 \<longrightarrow>
               aty ! j = x0 ! j + (\<Sum>(r, c, v)\<leftarrow>stored_triples m.
                                     if c = int j then v * y ! nat r else 0)"
  shows "dot x (contribution aty x0)
           = (\<Sum>(r, c, v)\<leftarrow>stored_triples m. v * x ! nat c * y ! nat r)"
proof -
  have "dot x (contribution aty x0)
          = (\<Sum>i<length x0. (\<Sum>(r, c, v)\<leftarrow>stored_triples m.
                if c = int i then v * y ! nat r else 0) * x ! i)"
    using len pt by (intro dot_contribution) simp_all
  also have "\<dots> = (\<Sum>i<length x. (\<Sum>t\<leftarrow>stored_triples m.
                if fst (snd t) = int i then snd (snd t) * y ! nat (fst t) else 0) * x ! i)"
    using len by (simp add: case_prod_unfold)
  also have "\<dots> = (\<Sum>t\<leftarrow>stored_triples m.
                       snd (snd t) * y ! nat (fst t) * x ! nat (fst (snd t)))"
  proof (rule sum_keyed)
    fix t assume "t \<in> set (stored_triples m)"
    then show "0 \<le> fst (snd t) \<and> fst (snd t) < int (length x)"
      using stored_triple_bounds [OF inv, of "fst t" "fst (snd t)" "snd (snd t)"] x by simp
  qed
  also have "\<dots> = (\<Sum>t\<leftarrow>stored_triples m.
                       snd (snd t) * x ! nat (fst (snd t)) * y ! nat (fst t))"
    by (simp add: mult_ac)
  finally show ?thesis by (simp add: case_prod_unfold)
qed

text \<open>
  C2. For a matrix that satisfies the invariant, \<open>x\<close> of length \<open>num_cols\<close> and \<open>y\<close> of
  length \<open>num_rows\<close>: the dot product with \<open>y\<close> of what \<^verbatim>\<open>RightMultiply\<close> adds to its
  output for \<open>x\<close> equals the dot product of \<open>x\<close> with what \<^verbatim>\<open>LeftMultiply\<close> adds to its
  output for \<open>y\<close>, over the real numbers.
\<close>

theorem adjoint_identity:
  assumes inv: "matrix_invariant m"
    and x: "int (length x) = num_cols m" and y: "int (length y) = num_rows m"
    and y0: "int (length y0) = num_rows m" and x0: "int (length x0) = num_cols m"
  shows "\<exists>ax aty. fst (RightMultiply dcheck (Some x) (Some y0) m) = Inr ax
           \<and> fst (LeftMultiply dcheck (Some y) (Some x0) m) = Inr aty
           \<and> dot (contribution ax y0) y = dot x (contribution aty x0)"
proof -
  from RightMultiply_pointwise [OF inv, of x y0 dcheck] x y0
  obtain ax where ax: "fst (RightMultiply dcheck (Some x) (Some y0) m) = Inr ax"
    and ax_len: "length ax = length y0"
    and ax_pt: "\<forall>j. j < length y0 \<longrightarrow>
               ax ! j = y0 ! j + (\<Sum>(r, c, v)\<leftarrow>stored_triples m.
                                     if r = int j then v * x ! nat c else 0)"
    by auto
  from LeftMultiply_pointwise [OF inv, of y x0 dcheck] y x0
  obtain aty where aty: "fst (LeftMultiply dcheck (Some y) (Some x0) m) = Inr aty"
    and aty_len: "length aty = length x0"
    and aty_pt: "\<forall>j. j < length x0 \<longrightarrow>
               aty ! j = x0 ! j + (\<Sum>(r, c, v)\<leftarrow>stored_triples m.
                                     if c = int j then v * y ! nat r else 0)"
    by auto
  have ly: "length y0 = length y" and lx: "length x0 = length x"
    using x y x0 y0 by simp_all
  have "dot (contribution ax y0) y = dot x (contribution aty x0)"
    using dot_contribution_rows [OF inv y ax_len ly ax_pt]
      dot_contribution_cols [OF inv x aty_len lx aty_pt]
    by simp
  with ax aty show ?thesis by blast
qed

theorem adjoint_identity_witness:
  "matrix_invariant example_matrix
   \<and> int (length [1, 10, 100 :: real]) = num_cols example_matrix
   \<and> int (length [2, 3, 5 :: real]) = num_rows example_matrix
   \<and> int (length [0, 0, 0 :: real]) = num_rows example_matrix
   \<and> int (length [0, 0, 0 :: real]) = num_cols example_matrix
   \<and> (\<exists>ax aty. fst (RightMultiply True (Some [1, 10, 100]) (Some [0, 0, 0]) example_matrix)
                   = Inr ax
          \<and> fst (LeftMultiply True (Some [2, 3, 5]) (Some [0, 0, 0]) example_matrix) = Inr aty
          \<and> dot (contribution ax [0, 0, 0]) [2, 3, 5]
              = dot [1, 10, 100] (contribution aty [0, 0, 0]))"
proof -
  have h1: "matrix_invariant example_matrix" by code_simp
  have h2: "int (length [1, 10, 100 :: real]) = num_cols example_matrix" by code_simp
  have h3: "int (length [2, 3, 5 :: real]) = num_rows example_matrix" by code_simp
  have h4: "int (length [0, 0, 0 :: real]) = num_rows example_matrix" by code_simp
  have h5: "int (length [0, 0, 0 :: real]) = num_cols example_matrix" by code_simp
  from adjoint_identity [OF h1 h2 h3 h4 h5, of True] h1 h2 h3 h4 h5
  show ?thesis by blast
qed

subsection \<open>Writing one element after the other\<close>

lemma overwrite_Nil [simp]: "overwrite p [] xs = xs"
  by (simp add: overwrite_def)

lemma overwrite_length:
  "p + length ws \<le> length xs \<Longrightarrow> length (overwrite p ws xs) = length xs"
  by (simp add: overwrite_def)

lemma overwrite_Cons:
  assumes "p < length xs"
  shows "overwrite (Suc p) ws (xs[p := w]) = overwrite p (w # ws) xs"
  using assms by (simp add: overwrite_def take_Suc_conv_app_nth)

lemma overwrite_append:
  assumes "p + length ws1 \<le> length xs"
  shows "overwrite (p + length ws1) ws2 (overwrite p ws1 xs) = overwrite p (ws1 @ ws2) xs"
  using assms by (simp add: overwrite_def ac_simps)

subsection \<open>The row-major order of a block\<close>

lemma indices_Suc: "0 \<le> n \<Longrightarrow> indices (n + 1) = indices n @ [n]"
  by (simp add: indices_def nat_add_distrib)

lemma length_indices [simp]: "length (indices n) = nat n"
  by (simp add: indices_def)

lemma length_entry_list:
  assumes "0 \<le> nrow" and "0 \<le> ncol"
  shows "length (entry_list nrow ncol) = nat (nrow * ncol)"
proof -
  have "length (entry_list nrow ncol) = nat nrow * nat ncol"
    by (simp add: entry_list_def length_concat comp_def sum_list_triv)
  then show ?thesis using assms by (simp add: nat_mult_distrib)
qed

lemma entry_list_offsets:
  assumes "0 \<le> ncol"
  shows "map (\<lambda>(r, c). r * ncol + c) (entry_list (int n) ncol) = indices (int n * ncol)"
proof (induction n)
  case 0
  show ?case by (simp add: entry_list_def indices_def)
next
  case (Suc n)
  have split: "[0..<nat (int n * ncol) + nat ncol]
                 = [0..<nat (int n * ncol)] @ [nat (int n * ncol)..<nat (int n * ncol) + nat ncol]"
    by (rule upt_add_eq_append) simp
  have shift: "map (\<lambda>c. int n * ncol + int c) [0..<nat ncol]
                 = map int [nat (int n * ncol)..<nat (int n * ncol) + nat ncol]"
    using assms by (simp add: map_add_upt [symmetric] comp_def add.commute)
  have tot: "nat (int (Suc n) * ncol) = nat (int n * ncol) + nat ncol"
    using assms by (simp add: distrib_right nat_add_distrib)
  have "entry_list (int (Suc n)) ncol
          = entry_list (int n) ncol @ map (\<lambda>c. (int n, c)) (indices ncol)"
    using indices_Suc [of "int n"] by (simp add: entry_list_def add.commute)
  then have "map (\<lambda>(r, c). r * ncol + c) (entry_list (int (Suc n)) ncol)
          = indices (int n * ncol) @ map (\<lambda>c. int n * ncol + c) (indices ncol)"
    using Suc.IH by (simp add: comp_def)
  also have "\<dots> = map int [0..<nat (int n * ncol)]
                       @ map int [nat (int n * ncol)..<nat (int n * ncol) + nat ncol]"
    using shift by (simp add: indices_def comp_def)
  also have "\<dots> = map int [0..<nat (int n * ncol) + nat ncol]"
    unfolding split by simp
  also have "\<dots> = indices (int (Suc n) * ncol)"
    unfolding indices_def tot ..
  finally show ?case .
qed

lemma entry_list_values:
  assumes "0 \<le> nrow" and "0 \<le> ncol" and "0 \<le> pos"
    and "pos + nrow * ncol \<le> int (length vals)"
  shows "map (\<lambda>(r, c). vals ! nat (pos + r * ncol + c)) (entry_list nrow ncol)
           = take (nat (nrow * ncol)) (drop (nat pos) vals)"
proof -
  have "map (\<lambda>(r, c). vals ! nat (pos + r * ncol + c)) (entry_list nrow ncol)
          = map (\<lambda>k. vals ! nat (pos + k)) (map (\<lambda>(r, c). r * ncol + c) (entry_list nrow ncol))"
    by (simp add: comp_def case_prod_unfold add.assoc)
  also have "\<dots> = map (\<lambda>k. vals ! nat (pos + k)) (indices (nrow * ncol))"
    using entry_list_offsets [OF assms(2), of "nat nrow"] assms(1) by simp
  also have "\<dots> = map (\<lambda>i. drop (nat pos) vals ! i) [0..<nat (nrow * ncol)]"
    using assms by (simp add: indices_def comp_def nat_add_distrib)
  also have "\<dots> = take (nat (nrow * ncol)) (drop (nat pos) vals)"
    using assms by (intro nth_equalityI) simp_all
  finally show ?thesis .
qed

subsection \<open>The triplet form\<close>

lemma write_entries:
  fixes t :: "real TripletSparseMatrix"
  assumes "p + length es \<le> length (t_rows t)" and "p + length es \<le> length (t_cols t)"
    and "p + length es \<le> length (t_values t)" and "p + length es \<le> length vals"
  shows "for_each es (\<lambda>(r, c) (t', jac_pos).
            seq (store (t_rows t') jac_pos (row_off + r)) (\<lambda>rs.
            seq (store (t_cols t') jac_pos (col_off + c)) (\<lambda>cs.
            seq (load vals jac_pos) (\<lambda>v.
            seq (store (t_values t') jac_pos v) (\<lambda>vs.
              Inr (t'\<lparr> t_rows := rs, t_cols := cs, t_values := vs \<rparr>, jac_pos + 1))))))
            (t, int p)
         = Inr (t\<lparr> t_rows := overwrite p (map (\<lambda>(r, c). row_off + r) es) (t_rows t),
                   t_cols := overwrite p (map (\<lambda>(r, c). col_off + c) es) (t_cols t),
                   t_values := overwrite p (take (length es) (drop p vals)) (t_values t) \<rparr>,
                int (p + length es))"
  using assms
proof (induction es arbitrary: t p)
  case Nil
  show ?case by simp
next
  case (Cons e es)
  obtain r c where e: "e = (r, c)" by (cases e) auto
  let ?t1 = "t\<lparr> t_rows := (t_rows t)[p := row_off + r], t_cols := (t_cols t)[p := col_off + c],
                 t_values := (t_values t)[p := vals ! p] \<rparr>"
  have p: "p < length (t_rows t)" "p < length (t_cols t)" "p < length (t_values t)"
    "p < length vals"
    using Cons.prems by simp_all
  have vals: "take (Suc (length es)) (drop p vals) = vals ! p # take (length es) (drop (Suc p) vals)"
    using p(4) by (simp add: Cons_nth_drop_Suc [symmetric])
  have "for_each (e # es) (\<lambda>(r, c) (t', jac_pos).
            seq (store (t_rows t') jac_pos (row_off + r)) (\<lambda>rs.
            seq (store (t_cols t') jac_pos (col_off + c)) (\<lambda>cs.
            seq (load vals jac_pos) (\<lambda>v.
            seq (store (t_values t') jac_pos v) (\<lambda>vs.
              Inr (t'\<lparr> t_rows := rs, t_cols := cs, t_values := vs \<rparr>, jac_pos + 1))))))
            (t, int p)
        = for_each es (\<lambda>(r, c) (t', jac_pos).
            seq (store (t_rows t') jac_pos (row_off + r)) (\<lambda>rs.
            seq (store (t_cols t') jac_pos (col_off + c)) (\<lambda>cs.
            seq (load vals jac_pos) (\<lambda>v.
            seq (store (t_values t') jac_pos v) (\<lambda>vs.
              Inr (t'\<lparr> t_rows := rs, t_cols := cs, t_values := vs \<rparr>, jac_pos + 1))))))
            (?t1, int (Suc p))"
    using p by (simp add: e store_def load_def add.commute)
  also have "\<dots> = Inr (?t1\<lparr> t_rows := overwrite (Suc p) (map (\<lambda>(r, c). row_off + r) es) (t_rows ?t1),
                   t_cols := overwrite (Suc p) (map (\<lambda>(r, c). col_off + c) es) (t_cols ?t1),
                   t_values := overwrite (Suc p) (take (length es) (drop (Suc p) vals)) (t_values ?t1) \<rparr>,
                int (Suc p + length es))"
    by (rule Cons.IH) (use Cons.prems in simp_all)
  also have "\<dots> = Inr (t\<lparr> t_rows := overwrite p (map (\<lambda>(r, c). row_off + r) (e # es)) (t_rows t),
                   t_cols := overwrite p (map (\<lambda>(r, c). col_off + c) (e # es)) (t_cols t),
                   t_values := overwrite p (take (length (e # es)) (drop p vals)) (t_values t) \<rparr>,
                int (p + length (e # es)))"
    using p by (simp add: overwrite_Cons e vals)
  finally show ?case .
qed

lemma length_block_triples:
  assumes "cell_in_bounds nr nc nnz q"
  shows "length (block_triples vals q) = nat (cell_area q)"
proof -
  obtain rb cell cs cp where q: "q = (rb, cell, cs, cp)" by (cases q) auto
  from assms have "0 \<le> block_size rb" "0 \<le> cs" by (simp_all add: q cell_in_bounds_def)
  then show ?thesis
    by (simp add: q block_triples_def cell_area_def length_entry_list)
qed

lemma triplet_block_cell:
  fixes t :: "real TripletSparseMatrix"
  assumes b: "cell_in_bounds nr nc nnz (rb, cell, cs, cp)"
    and len: "nnz \<le> int (length vals)" "nnz \<le> int (length (t_rows t))"
      "nnz \<le> int (length (t_cols t))" "nnz \<le> int (length (t_values t))"
  shows "triplet_block vals (position cell) (block_size rb) cs (block_position rb) cp t
         = Inr (t\<lparr> t_rows := overwrite (nat (position cell))
                               (map fst (block_triples vals (rb, cell, cs, cp))) (t_rows t),
                   t_cols := overwrite (nat (position cell))
                               (map (fst \<circ> snd) (block_triples vals (rb, cell, cs, cp))) (t_cols t),
                   t_values := overwrite (nat (position cell))
                               (map (snd \<circ> snd) (block_triples vals (rb, cell, cs, cp)))
                               (t_values t) \<rparr>)"
proof -
  let ?es = "entry_list (block_size rb) cs" and ?p = "nat (position cell)"
  from b have nonneg: "0 \<le> block_size rb" "0 \<le> cs" "0 \<le> position cell"
    and top: "position cell + block_size rb * cs \<le> nnz"
    by (simp_all add: cell_in_bounds_def)
  have n: "length ?es = nat (block_size rb * cs)"
    using nonneg by (simp add: length_entry_list)
  have "0 \<le> block_size rb * cs" using nonneg by simp
  then have fits: "int (?p + length ?es) \<le> nnz"
    using nonneg top by (simp add: n)
  have fit: "?p + length ?es \<le> length vals" "?p + length ?es \<le> length (t_rows t)"
    "?p + length ?es \<le> length (t_cols t)" "?p + length ?es \<le> length (t_values t)"
    using fits len by linarith+
  have vals: "take (length ?es) (drop ?p vals)
                = map (\<lambda>(r, c). vals ! nat (position cell + r * cs + c)) ?es"
    using entry_list_values [OF nonneg(1,2,3), of vals] top len(1) by (simp add: n)
  have p: "int ?p = position cell" using nonneg by simp
  have w: "for_each ?es (\<lambda>(r, c) (t', jac_pos).
            seq (store (t_rows t') jac_pos (block_position rb + r)) (\<lambda>rs.
            seq (store (t_cols t') jac_pos (cp + c)) (\<lambda>cs.
            seq (load vals jac_pos) (\<lambda>v.
            seq (store (t_values t') jac_pos v) (\<lambda>vs.
              Inr (t'\<lparr> t_rows := rs, t_cols := cs, t_values := vs \<rparr>, jac_pos + 1))))))
            (t, position cell)
         = Inr (t\<lparr> t_rows := overwrite ?p (map (\<lambda>(r, c). block_position rb + r) ?es) (t_rows t),
                   t_cols := overwrite ?p (map (\<lambda>(r, c). cp + c) ?es) (t_cols t),
                   t_values := overwrite ?p (take (length ?es) (drop ?p vals)) (t_values t) \<rparr>,
                int (?p + length ?es))"
    using write_entries [OF fit(2,3,4,1), of "block_position rb" cp] unfolding p .
  show ?thesis
    unfolding triplet_block_def for_each_entry_flat w
    by (simp add: vals block_triples_def comp_def case_prod_unfold)
qed

lemma length_cells_triples:
  assumes "\<forall>q \<in> set qs. cell_in_bounds nr nc nnz q"
  shows "int (length (concat (map (block_triples vals) qs))) = sum_list (map cell_area qs)"
  using assms
proof (induction qs)
  case Nil
  show ?case by simp
next
  case (Cons q qs)
  obtain rb cell cs cp where q: "q = (rb, cell, cs, cp)" by (cases q) auto
  from Cons.prems have "0 \<le> block_size rb" "0 \<le> cs" by (simp_all add: q cell_in_bounds_def)
  then have "0 \<le> cell_area q" by (simp add: q cell_area_def)
  moreover have "length (block_triples vals q) = nat (cell_area q)"
    using Cons.prems by (intro length_block_triples [of nr nc nnz]) simp
  ultimately show ?case using Cons by simp
qed

lemma triplet_cells:
  fixes t :: "real TripletSparseMatrix"
  assumes b: "\<forall>q \<in> set qs. cell_in_bounds nr nc nnz q"
    and pos: "map cell_position qs = prefix_sums (int a) (map cell_area qs)"
    and top: "int a + sum_list (map cell_area qs) \<le> nnz"
    and len: "nnz \<le> int (length vals)" "nnz \<le> int (length (t_rows t))"
      "nnz \<le> int (length (t_cols t))" "nnz \<le> int (length (t_values t))"
  shows "\<exists>t'. for_each qs (\<lambda>(rb, cell, cs, cp) t'.
            triplet_block vals (position cell) (block_size rb) cs (block_position rb) cp t') t
            = Inr t'
         \<and> t_rows t' = overwrite a (map fst (concat (map (block_triples vals) qs))) (t_rows t)
         \<and> t_cols t' = overwrite a (map (fst \<circ> snd) (concat (map (block_triples vals) qs)))
                          (t_cols t)
         \<and> t_values t' = overwrite a (map (snd \<circ> snd) (concat (map (block_triples vals) qs)))
                            (t_values t)
         \<and> t_num_rows t' = t_num_rows t \<and> t_num_cols t' = t_num_cols t"
  using assms
proof (induction qs arbitrary: t a)
  case Nil
  show ?case by simp
next
  case (Cons q qs)
  obtain rb cell cs cp where q: "q = (rb, cell, cs, cp)" by (cases q) auto
  let ?bt = "block_triples vals q"
  let ?rest = "concat (map (block_triples vals) qs)"
  let ?t1 = "t\<lparr> t_rows := overwrite a (map fst ?bt) (t_rows t),
                 t_cols := overwrite a (map (fst \<circ> snd) ?bt) (t_cols t),
                 t_values := overwrite a (map (snd \<circ> snd) ?bt) (t_values t) \<rparr>"
  have bq: "cell_in_bounds nr nc nnz (rb, cell, cs, cp)"
    using Cons.prems(1) by (simp add: q)
  have pq: "position cell = int a"
    using Cons.prems(2) by (simp add: q cell_position_def)
  have rest: "map cell_position qs = prefix_sums (int a + cell_area q) (map cell_area qs)"
    using Cons.prems(2) by simp
  have lq: "length ?bt = nat (cell_area q)"
    using bq by (intro length_block_triples [of nr nc nnz]) (simp add: q)
  have area: "0 \<le> cell_area q"
    using bq by (simp add: q cell_in_bounds_def cell_area_def)
  have rest_nonneg: "0 \<le> sum_list (map cell_area qs)"
    using length_cells_triples [of qs nr nc nnz vals] Cons.prems(1) by simp
  have a': "int a + cell_area q = int (a + length ?bt)"
    using lq area by simp
  have fit: "a + length ?bt \<le> length (t_rows t)" "a + length ?bt \<le> length (t_cols t)"
    "a + length ?bt \<le> length (t_values t)"
    using Cons.prems(3-7) a' rest_nonneg by simp_all
  have step: "triplet_block vals (position cell) (block_size rb) cs (block_position rb) cp t
                = Inr ?t1"
    using triplet_block_cell [OF bq Cons.prems(4-7)] by (simp add: pq q)
  have "\<exists>t'. for_each qs (\<lambda>(rb, cell, cs, cp) t'.
            triplet_block vals (position cell) (block_size rb) cs (block_position rb) cp t') ?t1
            = Inr t'
         \<and> t_rows t' = overwrite (a + length ?bt) (map fst ?rest) (t_rows ?t1)
         \<and> t_cols t' = overwrite (a + length ?bt) (map (fst \<circ> snd) ?rest) (t_cols ?t1)
         \<and> t_values t' = overwrite (a + length ?bt) (map (snd \<circ> snd) ?rest) (t_values ?t1)
         \<and> t_num_rows t' = t_num_rows ?t1 \<and> t_num_cols t' = t_num_cols ?t1"
  proof (rule Cons.IH)
    show "\<forall>q \<in> set qs. cell_in_bounds nr nc nnz q" using Cons.prems(1) by simp
    show "map cell_position qs = prefix_sums (int (a + length ?bt)) (map cell_area qs)"
      using rest a' by simp
    show "int (a + length ?bt) + sum_list (map cell_area qs) \<le> nnz"
      using Cons.prems(3) a' by simp
    show "nnz \<le> int (length vals)" by (rule Cons.prems(4))
    show "nnz \<le> int (length (t_rows ?t1))"
      using Cons.prems(5) fit by (simp add: overwrite_length)
    show "nnz \<le> int (length (t_cols ?t1))"
      using Cons.prems(6) fit by (simp add: overwrite_length)
    show "nnz \<le> int (length (t_values ?t1))"
      using Cons.prems(7) fit by (simp add: overwrite_length)
  qed
  then obtain t2 where loop: "for_each qs (\<lambda>(rb, cell, cs, cp) t'.
            triplet_block vals (position cell) (block_size rb) cs (block_position rb) cp t') ?t1
            = Inr t2"
    and r2: "t_rows t2 = overwrite (a + length ?bt) (map fst ?rest)
                           (overwrite a (map fst ?bt) (t_rows t))"
    and c2: "t_cols t2 = overwrite (a + length ?bt) (map (fst \<circ> snd) ?rest)
                           (overwrite a (map (fst \<circ> snd) ?bt) (t_cols t))"
    and v2: "t_values t2 = overwrite (a + length ?bt) (map (snd \<circ> snd) ?rest)
                           (overwrite a (map (snd \<circ> snd) ?bt) (t_values t))"
    and n2: "t_num_rows t2 = t_num_rows t" "t_num_cols t2 = t_num_cols t"
    by auto
  have join: "overwrite (a + length ?bt) (map f ?rest) (overwrite a (map f ?bt) xs)
                = overwrite a (map f (concat (map (block_triples vals) (q # qs)))) xs"
    if "a + length ?bt \<le> length xs" for f :: "int \<times> int \<times> real \<Rightarrow> 'b" and xs
    using overwrite_append [of a "map f ?bt" xs "map f ?rest"] that by simp
  have "for_each (q # qs) (\<lambda>(rb, cell, cs, cp) t'.
            triplet_block vals (position cell) (block_size rb) cs (block_position rb) cp t') t
          = Inr t2"
    using step loop by (simp add: q)
  moreover have "t_rows t2 = overwrite a (map fst (concat (map (block_triples vals) (q # qs))))
                               (t_rows t)"
    unfolding r2 by (rule join [OF fit(1)])
  moreover have "t_cols t2 = overwrite a
                   (map (fst \<circ> snd) (concat (map (block_triples vals) (q # qs)))) (t_cols t)"
    unfolding c2 by (rule join [OF fit(2)])
  moreover have "t_values t2 = overwrite a
                   (map (snd \<circ> snd) (concat (map (block_triples vals) (q # qs)))) (t_values t)"
    unfolding v2 by (rule join [OF fit(3)])
  ultimately show ?case using n2 by blast
qed

lemma zip_projections:
  "zip (map fst ts) (zip (map (fst \<circ> snd) ts) (map (snd \<circ> snd) ts)) = ts"
  by (induction ts) simp_all

lemma length_stored_triples:
  assumes "matrix_invariant m"
  shows "length (stored_triples m) = nat (num_nonzeros m)"
proof -
  have "int (length (stored_triples m)) = sum_list (map cell_area (cell_list (block_structure m)))"
    unfolding stored_triples_def
    by (rule length_cells_triples) (use matrix_invariant_bounds [OF assms] in blast)
  then show ?thesis
    using assms by (simp add: sum_cell_area matrix_invariant_def)
qed

lemma ToTripletSparseMatrix_stored:
  fixes m :: "real BlockSparseMatrix"
  assumes inv: "matrix_invariant m"
  shows "\<exists>t'. fst (ToTripletSparseMatrix dcheck (Some t) m) = Inr t'
           \<and> t_num_rows t' = num_rows m \<and> t_num_cols t' = num_cols m
           \<and> t_num_nonzeros t' = num_nonzeros m
           \<and> triplets t' = stored_triples m"
proof -
  let ?bs = "block_structure m" and ?vals = "values_buf m"
  let ?t0 = "SetZero_triplet (Resize (num_rows m) (num_cols m) (Reserve (num_nonzeros m) t))"
  let ?all = "stored_triples m"
  from inv have d: "descriptor_invariant ?bs"
    and len: "int (length ?vals) = num_nonzeros m"
    and nnz: "num_nonzeros m = total_nonzeros ?bs"
    by (simp_all add: matrix_invariant_def)
  have room: "num_nonzeros m \<le> int (length (t_rows ?t0))"
    "num_nonzeros m \<le> int (length (t_cols ?t0))"
    "num_nonzeros m \<le> int (length (t_values ?t0))"
    by (simp_all add: SetZero_triplet_def Resize_def Reserve_def reserve_array_def)
  have cells: "map cell_position (cell_list ?bs)
                 = prefix_sums (int 0) (map cell_area (cell_list ?bs))"
    using d by (simp add: descriptor_invariant_def)
  have "\<exists>t'. for_each (cell_list ?bs) (\<lambda>(rb, cell, cs, cp) t'.
                triplet_block ?vals (position cell) (block_size rb) cs (block_position rb) cp t')
                ?t0 = Inr t'
         \<and> t_rows t' = overwrite 0 (map fst (concat (map (block_triples ?vals) (cell_list ?bs))))
                          (t_rows ?t0)
         \<and> t_cols t' = overwrite 0
                          (map (fst \<circ> snd) (concat (map (block_triples ?vals) (cell_list ?bs))))
                          (t_cols ?t0)
         \<and> t_values t' = overwrite 0
                          (map (snd \<circ> snd) (concat (map (block_triples ?vals) (cell_list ?bs))))
                          (t_values ?t0)
         \<and> t_num_rows t' = t_num_rows ?t0 \<and> t_num_cols t' = t_num_cols ?t0"
  proof (rule triplet_cells [where nr = "num_rows m" and nc = "num_cols m"
          and nnz = "num_nonzeros m"])
    show "\<forall>q \<in> set (cell_list ?bs).
            cell_in_bounds (num_rows m) (num_cols m) (num_nonzeros m) q"
      using matrix_invariant_bounds [OF inv] by blast
    show "int 0 + sum_list (map cell_area (cell_list ?bs)) \<le> num_nonzeros m"
      by (simp add: sum_cell_area nnz)
    show "num_nonzeros m \<le> int (length ?vals)" using len by simp
  qed (rule cells room)+
  then obtain t1 where loop: "for_each (cell_list ?bs) (\<lambda>(rb, cell, cs, cp) t'.
                triplet_block ?vals (position cell) (block_size rb) cs (block_position rb) cp t')
                ?t0 = Inr t1"
    and r1: "t_rows t1 = overwrite 0 (map fst ?all) (t_rows ?t0)"
    and c1: "t_cols t1 = overwrite 0 (map (fst \<circ> snd) ?all) (t_cols ?t0)"
    and v1: "t_values t1 = overwrite 0 (map (snd \<circ> snd) ?all) (t_values ?t0)"
    and n1: "t_num_rows t1 = t_num_rows ?t0" "t_num_cols t1 = t_num_cols ?t0"
    unfolding stored_triples_def by blast
  have n: "length ?all = nat (num_nonzeros m)"
    by (rule length_stored_triples [OF inv])
  have "triplets (set_num_nonzeros (num_nonzeros m) t1)
          = zip (map fst ?all) (zip (map (fst \<circ> snd) ?all) (map (snd \<circ> snd) ?all))"
    by (simp add: triplets_def set_num_nonzeros_def r1 c1 v1 overwrite_def take_zip n)
  then have "triplets (set_num_nonzeros (num_nonzeros m) t1) = ?all"
    by (simp only: zip_projections)
  moreover have "fst (ToTripletSparseMatrix dcheck (Some t) m)
                   = Inr (set_num_nonzeros (num_nonzeros m) t1)"
    using loop
    by (simp add: ToTripletSparseMatrix_def for_each_cell_flat [OF invariant_lengths [OF d]])
  moreover have "t_num_rows (set_num_nonzeros (num_nonzeros m) t1) = num_rows m"
    "t_num_cols (set_num_nonzeros (num_nonzeros m) t1) = num_cols m"
    "t_num_nonzeros (set_num_nonzeros (num_nonzeros m) t1) = num_nonzeros m"
    using n1 by (simp_all add: set_num_nonzeros_def SetZero_triplet_def Resize_def Reserve_def)
  ultimately show ?thesis by blast
qed

lemma concat_concat: "concat (concat xsss) = concat (map concat xsss)"
  by (induction xsss) simp_all

lemma stored_triples_explicit:
  "stored_triples m =
     concat (map (\<lambda>row. concat (map (\<lambda>cell.
       concat (map (\<lambda>r. map (\<lambda>c.
           (block_position (block row) + r,
            col_positions (block_structure m) ! nat (block_id cell) + c,
            values_buf m ! nat (position cell
                                  + r * col_sizes (block_structure m) ! nat (block_id cell) + c)))
         (indices (col_sizes (block_structure m) ! nat (block_id cell))))
       (indices (block_size (block row)))))
     (cells row))) (rows (block_structure m)))"
  by (simp add: stored_triples_def cell_list_def block_triples_def entry_list_def
      map_concat concat_concat comp_def)

text \<open>
  C4. For a matrix that satisfies the invariant \<^verbatim>\<open>ToTripletSparseMatrix\<close> produces
  exactly \<open>num_nonzeros\<close> triples. They are, for the rows in order, for the cells of a row
  in order, for the row offsets \<open>r\<close> and within them the column offsets \<open>c\<close> of the block,
  the triples \<open>(row_block_position + r, column_block_position + c, value)\<close>, in this
  order.
\<close>

theorem ToTripletSparseMatrix_triples:
  fixes m :: "real BlockSparseMatrix"
  assumes "matrix_invariant m"
  shows "\<exists>t'. fst (ToTripletSparseMatrix dcheck (Some t) m) = Inr t'
           \<and> t_num_nonzeros t' = num_nonzeros m
           \<and> int (length (triplets t')) = num_nonzeros m
           \<and> triplets t' =
               concat (map (\<lambda>row. concat (map (\<lambda>cell.
                 concat (map (\<lambda>r. map (\<lambda>c.
                     (block_position (block row) + r,
                      col_positions (block_structure m) ! nat (block_id cell) + c,
                      values_buf m ! nat (position cell
                        + r * col_sizes (block_structure m) ! nat (block_id cell) + c)))
                   (indices (col_sizes (block_structure m) ! nat (block_id cell))))
                 (indices (block_size (block row)))))
               (cells row))) (rows (block_structure m)))"
proof -
  from ToTripletSparseMatrix_stored [OF assms, of dcheck t]
  obtain t' where t': "fst (ToTripletSparseMatrix dcheck (Some t) m) = Inr t'"
    "t_num_nonzeros t' = num_nonzeros m" "triplets t' = stored_triples m"
    by blast
  have "int (length (triplets t')) = num_nonzeros m"
    using length_stored_triples [OF assms] matrix_invariant_nonneg(3) [OF assms]
    by (simp add: t'(3))
  with t' show ?thesis
    unfolding stored_triples_explicit by blast
qed

theorem ToTripletSparseMatrix_triples_witness:
  "matrix_invariant example_matrix
   \<and> (\<exists>t'. fst (ToTripletSparseMatrix True (Some empty_triplet) example_matrix) = Inr t'
          \<and> t_num_nonzeros t' = 5
          \<and> triplets t' = [(0, 0, 1), (0, 1, 2), (0, 2, 3), (1, 2, 4), (2, 2, 5)])"
proof -
  have h: "matrix_invariant example_matrix" by code_simp
  have e: "stored_triples example_matrix = [(0, 0, 1), (0, 1, 2), (0, 2, 3), (1, 2, 4), (2, 2, 5)]"
    by code_simp
  have n: "num_nonzeros example_matrix = 5" by code_simp
  from ToTripletSparseMatrix_triples [OF h, of True empty_triplet]
  show ?thesis
    unfolding stored_triples_explicit [symmetric] e n using h by blast
qed

subsection \<open>The dense form\<close>

lemma add_at2_pointwise:
  fixes D :: "real list list"
  assumes dims: "has_dims nr nc D"
    and i: "0 \<le> i" "i < int nr" and j: "0 \<le> j" "j < int nc"
  shows "\<exists>D'. add_at2 D i j d = Inr D' \<and> has_dims nr nc D'
           \<and> (\<forall>ij. fst ij < nr \<and> snd ij < nc \<longrightarrow>
                 D' ! fst ij ! snd ij
                   = D ! fst ij ! snd ij + (if i = int (fst ij) \<and> j = int (snd ij) then d else 0))"
proof -
  let ?row = "D ! nat i"
  let ?D' = "D[nat i := ?row[nat j := ?row ! nat j + d]]"
  from dims i have li: "nat i < length D" and lrow: "length ?row = nc"
    by (simp_all add: has_dims_def nat_less_iff)
  from j lrow have lj: "nat j < length ?row" by (simp add: nat_less_iff)
  have "add_at2 D i j d = Inr ?D'"
    using i j li lj dims lrow
    by (simp add: add_at2_def add_at_def load_def store_def has_dims_def)
  moreover have "has_dims nr nc ?D'"
  proof -
    have "length (?D' ! k) = nc" if "k < nr" for k
      using that dims lrow li by (cases "k = nat i") (simp_all add: has_dims_def)
    then show ?thesis using dims by (simp add: has_dims_def)
  qed
  moreover have "?D' ! a ! b = D ! a ! b + (if i = int a \<and> j = int b then d else 0)"
    if "a < nr" "b < nc" for a b
  proof (cases "nat i = a")
    case True
    show ?thesis
    proof (cases "nat j = b")
      case True
      with \<open>nat i = a\<close> i j li lj show ?thesis by auto
    next
      case False
      with \<open>nat i = a\<close> i j li lj show ?thesis by auto
    qed
  next
    case False
    with i li show ?thesis by auto
  qed
  ultimately show ?thesis by auto
qed

lemma sum_block_triples_entries:
  "(\<Sum>(r, c, v)\<leftarrow>block_triples A (rb, cell, cs, cp). (G r c v :: real))
     = (\<Sum>(r, k)\<leftarrow>entry_list (block_size rb) cs.
          G (block_position rb + r) (cp + k) (A ! nat (position cell + r * cs + k)))"
  by (simp add: block_triples_def comp_def case_prod_unfold)

lemma add_block_cell:
  fixes A :: "real list"
  assumes b: "cell_in_bounds (int nr) (int nc) nnz (rb, cell, cs, cp)"
    and A: "nnz \<le> int (length A)" and dims: "has_dims nr nc D"
  shows "\<exists>D'. add_block A (position cell) (block_size rb) cs (block_position rb) cp D = Inr D'
           \<and> has_dims nr nc D'
           \<and> (\<forall>ij. fst ij < nr \<and> snd ij < nc \<longrightarrow>
                 D' ! fst ij ! snd ij
                   = D ! fst ij ! snd ij
                     + (\<Sum>(r, c, v)\<leftarrow>block_triples A (rb, cell, cs, cp).
                          if r = int (fst ij) \<and> c = int (snd ij) then v else 0))"
  unfolding add_block_def for_each_entry_flat sum_block_triples_entries
proof (rule for_each_pointwise [where I = "has_dims nr nc"
      and obs = "\<lambda>D ij. D ! fst ij ! snd ij" and J = "\<lambda>ij. fst ij < nr \<and> snd ij < nc"
      and h = "\<lambda>e ij. case e of (r, k) \<Rightarrow>
                 if block_position rb + r = int (fst ij) \<and> cp + k = int (snd ij)
                 then A ! nat (position cell + r * cs + k) else 0"])
  show "has_dims nr nc D" by (rule dims)
next
  fix e and s :: "real list list"
  assume e: "e \<in> set (entry_list (block_size rb) cs)" and s: "has_dims nr nc s"
  obtain r k where e_eq: "e = (r, k)" by (cases e) auto
  from e have r: "0 \<le> r" "r < block_size rb" and k: "0 \<le> k" "k < cs"
    by (simp_all add: e_eq set_entry_list)
  have i: "0 \<le> block_position rb + r" "block_position rb + r < int nr"
    and j: "0 \<le> cp + k" "cp + k < int nc"
    using b r k by (simp_all add: cell_in_bounds_def)
  from add_at2_pointwise [OF s i j, of "A ! nat (position cell + r * cs + k)"]
    block_loads [OF b A r k]
  show "\<exists>s'. (case e of (r, c) \<Rightarrow> \<lambda>D'.
                 seq (load A (position cell + r * cs + c)) (\<lambda>a.
                   add_at2 D' (block_position rb + r) (cp + c) a)) s = Inr s'
          \<and> has_dims nr nc s'
          \<and> (\<forall>ij. fst ij < nr \<and> snd ij < nc \<longrightarrow>
                s' ! fst ij ! snd ij
                  = s ! fst ij ! snd ij
                    + (case e of (r, k) \<Rightarrow>
                         if block_position rb + r = int (fst ij) \<and> cp + k = int (snd ij)
                         then A ! nat (position cell + r * cs + k) else 0))"
    by (simp add: e_eq)
qed

lemma ToDenseMatrix_pointwise:
  fixes m :: "real BlockSparseMatrix"
  assumes inv: "matrix_invariant m"
  shows "\<exists>D. fst (ToDenseMatrix dcheck (Some d0) m) = Inr D
           \<and> has_dims (nat (num_rows m)) (nat (num_cols m)) D
           \<and> (\<forall>i j. i < nat (num_rows m) \<and> j < nat (num_cols m) \<longrightarrow>
                 D ! i ! j = (\<Sum>(r, c, v)\<leftarrow>stored_triples m.
                                if r = int i \<and> c = int j then v else 0))"
proof -
  let ?bs = "block_structure m" and ?A = "values_buf m"
  let ?nr = "nat (num_rows m)" and ?nc = "nat (num_cols m)"
  let ?zero = "replicate ?nr (replicate ?nc (0::real))"
  let ?h = "\<lambda>q ij. \<Sum>(r, c, v)\<leftarrow>block_triples ?A q.
                     if r = int (fst ij) \<and> c = int (snd ij) then v else 0"
  from inv have d: "descriptor_invariant ?bs" and A: "num_nonzeros m \<le> int (length ?A)"
    by (simp_all add: matrix_invariant_def)
  have nonneg: "0 \<le> num_rows m" "0 \<le> num_cols m"
    using matrix_invariant_nonneg [OF inv] by simp_all
  have "\<exists>D. for_each (cell_list ?bs)
               (\<lambda>(rb, cell, cs, cp) D'.
                  add_block ?A (position cell) (block_size rb) cs (block_position rb) cp D')
               ?zero = Inr D
          \<and> has_dims ?nr ?nc D
          \<and> (\<forall>ij. fst ij < ?nr \<and> snd ij < ?nc \<longrightarrow>
                D ! fst ij ! snd ij
                  = ?zero ! fst ij ! snd ij + (\<Sum>q\<leftarrow>cell_list ?bs. ?h q ij))"
  proof (rule for_each_pointwise [where I = "has_dims ?nr ?nc"
        and obs = "\<lambda>D ij. D ! fst ij ! snd ij" and J = "\<lambda>ij. fst ij < ?nr \<and> snd ij < ?nc"
        and h = ?h])
    show "has_dims ?nr ?nc ?zero" by (simp add: has_dims_def)
  next
    fix q and s :: "real list list"
    assume q: "q \<in> set (cell_list ?bs)" and s: "has_dims ?nr ?nc s"
    obtain rb cell cs cp where q_eq: "q = (rb, cell, cs, cp)" by (cases q) auto
    have b: "cell_in_bounds (int ?nr) (int ?nc) (num_nonzeros m) (rb, cell, cs, cp)"
      using matrix_invariant_bounds [OF inv q] nonneg by (simp add: q_eq)
    from add_block_cell [OF b A s]
    show "\<exists>s'. (case q of (rb, cell, cs, cp) \<Rightarrow> \<lambda>D'.
                  add_block ?A (position cell) (block_size rb) cs (block_position rb) cp D') s
                = Inr s'
            \<and> has_dims ?nr ?nc s'
            \<and> (\<forall>ij. fst ij < ?nr \<and> snd ij < ?nc \<longrightarrow>
                  s' ! fst ij ! snd ij = s ! fst ij ! snd ij + ?h q ij)"
      by (simp add: q_eq)
  qed
  then obtain D where loop: "for_each (cell_list ?bs)
               (\<lambda>(rb, cell, cs, cp) D'.
                  add_block ?A (position cell) (block_size rb) cs (block_position rb) cp D')
               ?zero = Inr D"
    and dims: "has_dims ?nr ?nc D"
    and pt: "\<forall>ij. fst ij < ?nr \<and> snd ij < ?nc \<longrightarrow>
                D ! fst ij ! snd ij
                  = ?zero ! fst ij ! snd ij
                    + (\<Sum>t\<leftarrow>stored_triples m. case t of (r, c, v) \<Rightarrow>
                         if r = int (fst ij) \<and> c = int (snd ij) then v else 0)"
    unfolding sum_stored_triples by blast
  have "D ! i ! j = (\<Sum>(r, c, v)\<leftarrow>stored_triples m. if r = int i \<and> c = int j then v else 0)"
    if "i < ?nr" "j < ?nc" for i j
    using pt [rule_format, of "(i, j)"] that by simp
  moreover have "fst (ToDenseMatrix dcheck (Some d0) m) = Inr D"
    using loop nonneg
    by (simp add: ToDenseMatrix_def for_each_cell_flat [OF invariant_lengths [OF d]])
  ultimately show ?thesis using dims by blast
qed

subsection \<open>Sums over the triples at one place\<close>

lemma keyed_sum_none:
  assumes "\<And>t. t \<in> set ts \<Longrightarrow> key t \<noteq> k"
  shows "(\<Sum>t\<leftarrow>ts. if key t = k then f t else (0::real)) = 0"
  using assms by (induction ts) simp_all

lemma keyed_sum_distinct:
  assumes "distinct (map key ts)" and "t \<in> set ts"
  shows "(\<Sum>t'\<leftarrow>ts. if key t' = key t then f t' else (0::real)) = f t"
  using assms
proof (induction ts)
  case Nil
  then show ?case by simp
next
  case (Cons a ts)
  from Cons.prems(1) have notin: "key a \<notin> key ` set ts" and dist: "distinct (map key ts)"
    by simp_all
  show ?case
  proof (cases "t = a")
    case True
    have "key t' \<noteq> key a" if "t' \<in> set ts" for t'
      using notin that by (metis imageI)
    then have "(\<Sum>t'\<leftarrow>ts. if key t' = key a then f t' else 0) = 0"
      by (rule keyed_sum_none)
    then show ?thesis using True by simp
  next
    case False
    with Cons.prems(2) have t: "t \<in> set ts" by simp
    then have "key a \<noteq> key t" using notin by auto
    then show ?thesis using Cons.IH [OF dist t] by simp
  qed
qed

lemma coordinates_eq: "coordinates t = (r, c) \<longleftrightarrow> fst t = r \<and> fst (snd t) = c"
  by (cases t) (simp add: coordinates_def)

lemma sum_at_coordinates:
  "(\<Sum>(r, c, v)\<leftarrow>ts. if r = i \<and> c = j then f r c v else (0::real))
     = (\<Sum>t\<leftarrow>ts. if coordinates t = (i, j) then f (fst t) (fst (snd t)) (snd (snd t)) else 0)"
  by (simp add: case_prod_unfold coordinates_eq)

lemma set_dense_entries:
  "(r, c, v) \<in> set (dense_entries D) \<longleftrightarrow>
     (\<exists>i j. i < length D \<and> j < length (D ! i) \<and> r = int i \<and> c = int j
            \<and> v = D ! i ! j \<and> v \<noteq> 0)"
  by (auto simp: dense_entries_def)

lemma dense_entries_of_triples:
  fixes D :: "real list list"
  assumes dims: "has_dims nr nc D"
    and pt: "\<forall>i j. i < nr \<and> j < nc \<longrightarrow>
               D ! i ! j = (\<Sum>(r, c, v)\<leftarrow>ts. if r = int i \<and> c = int j then v else 0)"
    and inside: "\<And>r c v. (r, c, v) \<in> set ts \<Longrightarrow> 0 \<le> r \<and> r < int nr \<and> 0 \<le> c \<and> c < int nc"
    and dist: "distinct (map coordinates ts)"
  shows "set (dense_entries D) = {tr \<in> set ts. snd (snd tr) \<noteq> 0}"
proof -
  have at: "D ! i ! j = (\<Sum>t\<leftarrow>ts. if coordinates t = (int i, int j) then snd (snd t) else 0)"
    if "i < nr" "j < nc" for i j
    using pt that by (simp add: sum_at_coordinates)
  have one: "D ! nat r ! nat c = v" if "(r, c, v) \<in> set ts" for r c v
  proof -
    from inside [OF that] have "nat r < nr" "nat c < nc" "int (nat r) = r" "int (nat c) = c"
      by (simp_all add: nat_less_iff)
    with at [of "nat r" "nat c"]
    have "D ! nat r ! nat c
            = (\<Sum>t\<leftarrow>ts. if coordinates t = coordinates (r, c, v) then snd (snd t) else 0)"
      by (simp add: coordinates_def)
    also have "\<dots> = snd (snd (r, c, v))"
      by (rule keyed_sum_distinct [OF dist that])
    finally show ?thesis by simp
  qed
  show ?thesis
  proof (intro set_eqI iffI)
    fix tr assume mem: "tr \<in> set (dense_entries D)"
    obtain r c v where rcv: "tr = (r, c, v)" by (cases tr) auto
    from mem obtain i j where ij: "i < length D" "j < length (D ! i)"
      and tr: "tr = (int i, int j, D ! i ! j)" and nz: "D ! i ! j \<noteq> 0"
      unfolding rcv set_dense_entries by blast
    from ij dims have ij': "i < nr" "j < nc" by (simp_all add: has_dims_def)
    have "\<exists>t \<in> set ts. coordinates t = (int i, int j)"
    proof (rule ccontr)
      assume "\<not> (\<exists>t \<in> set ts. coordinates t = (int i, int j))"
      then have "(\<Sum>t\<leftarrow>ts. if coordinates t = (int i, int j) then snd (snd t) else 0) = 0"
        by (intro keyed_sum_none) auto
      with at [OF ij'] nz show False by simp
    qed
    then obtain t where t: "t \<in> set ts" "coordinates t = (int i, int j)" by blast
    have "fst t = int i \<and> fst (snd t) = int j"
      using t(2) by (simp add: coordinates_eq)
    then have t_eq: "t = (int i, int j, snd (snd t))"
      by (simp add: prod_eq_iff)
    define v where "v = snd (snd t)"
    note t_eq = t_eq [folded v_def]
    from one [of "int i" "int j" v] t(1) have "D ! i ! j = v" by (simp add: t_eq)
    with t(1) nz show "tr \<in> {tr \<in> set ts. snd (snd tr) \<noteq> 0}"
      by (simp add: tr t_eq)
  next
    fix tr assume "tr \<in> {tr \<in> set ts. snd (snd tr) \<noteq> 0}"
    then obtain r c v where tr: "tr = (r, c, v)" and mem: "(r, c, v) \<in> set ts" and nz: "v \<noteq> 0"
      by (cases tr) auto
    from inside [OF mem] have rc: "nat r < nr" "nat c < nc" "int (nat r) = r" "int (nat c) = c"
      by (simp_all add: nat_less_iff)
    have "nat r < length D" "nat c < length (D ! nat r)"
      using rc dims by (simp_all add: has_dims_def)
    with one [OF mem] nz rc show "tr \<in> set (dense_entries D)"
      unfolding tr set_dense_entries by (intro exI [of _ "nat r"] exI [of _ "nat c"]) simp
  qed
qed

text \<open>
  C7 fails as the claim states it: a row block may list a column block twice, and a
  stored scalar may be zero. In \<open>duplicate_matrix\<close> the two stored scalars, both 1, land
  on the entry \<open>(0, 0)\<close>, which is 2 in the dense matrix; the triples say 1.
\<close>

theorem dense_and_triplets_counterexample:
  "matrix_invariant duplicate_matrix
   \<and> fst (ToDenseMatrix True (Some []) duplicate_matrix) = Inr [[2]]
   \<and> fst (ToTripletSparseMatrix True (Some empty_triplet) duplicate_matrix)
       = Inr \<lparr> t_num_rows = 1, t_num_cols = 1, t_num_nonzeros = 2,
               t_rows = [0, 0], t_cols = [0, 0], t_values = [1, 1] \<rparr>
   \<and> set (dense_entries [[2 :: real]])
       \<noteq> set (triplets \<lparr> t_num_rows = 1, t_num_cols = 1, t_num_nonzeros = 2,
                          t_rows = [0, 0], t_cols = [0, 0], t_values = [1, 1 :: real] \<rparr>)"
  by code_simp

text \<open>
  C7, amended. For a matrix that satisfies the invariant, every entry of the dense matrix
  of \<^verbatim>\<open>ToDenseMatrix\<close> is the sum of the values of the triples of
  \<^verbatim>\<open>ToTripletSparseMatrix\<close> at its coordinates, hence zero where no triple lands; and
  when no two triples have the same coordinates, the entries of the dense matrix other
  than zero are, as a set of (row, column, value), the triples whose value is not zero.
\<close>

theorem dense_and_triplets:
  fixes m :: "real BlockSparseMatrix"
  assumes inv: "matrix_invariant m"
  shows "\<exists>D t'. fst (ToDenseMatrix dcheck (Some d0) m) = Inr D
           \<and> fst (ToTripletSparseMatrix dcheck (Some t) m) = Inr t'
           \<and> has_dims (nat (num_rows m)) (nat (num_cols m)) D
           \<and> (\<forall>i j. i < nat (num_rows m) \<and> j < nat (num_cols m) \<longrightarrow>
                 D ! i ! j = (\<Sum>(r, c, v)\<leftarrow>triplets t'. if r = int i \<and> c = int j then v else 0))
           \<and> (distinct (map coordinates (triplets t')) \<longrightarrow>
                 set (dense_entries D) = {tr \<in> set (triplets t'). snd (snd tr) \<noteq> 0})"
proof -
  from ToDenseMatrix_pointwise [OF inv, of dcheck d0]
  obtain D where D: "fst (ToDenseMatrix dcheck (Some d0) m) = Inr D"
    and dims: "has_dims (nat (num_rows m)) (nat (num_cols m)) D"
    and pt: "\<forall>i j. i < nat (num_rows m) \<and> j < nat (num_cols m) \<longrightarrow>
               D ! i ! j = (\<Sum>(r, c, v)\<leftarrow>stored_triples m.
                              if r = int i \<and> c = int j then v else 0)"
    by blast
  from ToTripletSparseMatrix_stored [OF inv, of dcheck t]
  obtain t' where t': "fst (ToTripletSparseMatrix dcheck (Some t) m) = Inr t'"
    and trip: "triplets t' = stored_triples m"
    by blast
  have inside: "0 \<le> r \<and> r < int (nat (num_rows m)) \<and> 0 \<le> c \<and> c < int (nat (num_cols m))"
    if "(r, c, v) \<in> set (stored_triples m)" for r c v
    using stored_triple_bounds [OF inv that] by simp
  have "set (dense_entries D) = {tr \<in> set (stored_triples m). snd (snd tr) \<noteq> 0}"
    if "distinct (map coordinates (stored_triples m))"
    using dims pt inside that by (rule dense_entries_of_triples)
  then have sets: "distinct (map coordinates (triplets t')) \<longrightarrow>
                     set (dense_entries D) = {tr \<in> set (triplets t'). snd (snd tr) \<noteq> 0}"
    unfolding trip by blast
  have pt': "\<forall>i j. i < nat (num_rows m) \<and> j < nat (num_cols m) \<longrightarrow>
               D ! i ! j = (\<Sum>(r, c, v)\<leftarrow>triplets t'. if r = int i \<and> c = int j then v else 0)"
    unfolding trip by (rule pt)
  from D t' dims pt' sets show ?thesis by blast
qed

theorem dense_and_triplets_witness:
  "matrix_invariant example_matrix
   \<and> (\<exists>D t'. fst (ToDenseMatrix True (Some []) example_matrix) = Inr D
          \<and> fst (ToTripletSparseMatrix True (Some empty_triplet) example_matrix) = Inr t'
          \<and> has_dims 3 3 D
          \<and> distinct (map coordinates (triplets t'))
          \<and> set (dense_entries D) = {tr \<in> set (triplets t'). snd (snd tr) \<noteq> 0})"
proof -
  let ?t = "\<lparr> t_num_rows = 3, t_num_cols = 3, t_num_nonzeros = 5, t_rows = [0, 0, 0, 1, 2],
              t_cols = [0, 1, 2, 2, 2], t_values = [1, 2, 3, 4, 5 :: real] \<rparr>"
  have h: "matrix_invariant example_matrix" by code_simp
  have n: "nat (num_rows example_matrix) = 3" "nat (num_cols example_matrix) = 3"
    by code_simp+
  have T: "fst (ToTripletSparseMatrix True (Some empty_triplet) example_matrix) = Inr ?t"
    by code_simp
  have dist: "distinct (map coordinates (triplets ?t))" by code_simp
  from dense_and_triplets [OF h, of True "[]" empty_triplet]
  obtain D t' where D: "fst (ToDenseMatrix True (Some []) example_matrix) = Inr D"
    and t': "fst (ToTripletSparseMatrix True (Some empty_triplet) example_matrix) = Inr t'"
    and dims: "has_dims 3 3 D"
    and sets: "distinct (map coordinates (triplets t')) \<longrightarrow>
                 set (dense_entries D) = {tr \<in> set (triplets t'). snd (snd tr) \<noteq> 0}"
    unfolding n by blast
  from t' T have "t' = ?t" by simp
  with dist sets have "distinct (map coordinates (triplets t'))"
    and "set (dense_entries D) = {tr \<in> set (triplets t'). snd (snd tr) \<noteq> 0}"
    by simp_all
  with h D t' dims show ?thesis by blast
qed

subsection \<open>The squared column norms\<close>

lemma add_colwise_squaredNorm_cell:
  fixes A :: "real list"
  assumes b: "cell_in_bounds nr nc nnz (rb, cell, cs, cp)" and A: "nnz \<le> int (length A)"
    and x: "nc \<le> int (length x)"
  shows "\<exists>x'. add_colwise_squaredNorm A (position cell) (block_size rb) cs x cp = Inr x'
           \<and> length x' = length x
           \<and> (\<forall>j. j < length x \<longrightarrow>
                 x' ! j = x ! j + (\<Sum>(r, c, v)\<leftarrow>block_triples A (rb, cell, cs, cp).
                                      if c = int j then v * v else 0))"
proof -
  let ?g = "\<lambda>k. \<Sum>r\<leftarrow>indices (block_size rb).
                   A ! nat (position cell + r * cs + k) * A ! nat (position cell + r * cs + k)"
  have val: "sum_over (block_size rb) (\<lambda>r. seq (load A (position cell + r * cs + k))
               (\<lambda>a. Inr (a * a))) = Inr (?g k)"
    if k: "0 \<le> k" "k < cs" for k
  proof (rule sum_over_eq)
    fix r :: int assume r: "0 \<le> r" "r < block_size rb"
    show "seq (load A (position cell + r * cs + k)) (\<lambda>a. Inr (a * a))
            = Inr (A ! nat (position cell + r * cs + k) * A ! nat (position cell + r * cs + k))"
      using block_loads [OF b A r k] by simp
  qed
  have off: "0 \<le> cp" "cp + cs \<le> int (length x)"
    using b x by (simp_all add: cell_in_bounds_def)
  from accumulate_pointwise [of cs _ ?g, OF val off]
  obtain x' where x': "add_colwise_squaredNorm A (position cell) (block_size rb) cs x cp = Inr x'"
    "length x' = length x"
    and pt: "\<forall>j. j < length x \<longrightarrow>
               x' ! j = x ! j + (\<Sum>k\<leftarrow>indices cs. if cp + k = int j then ?g k else 0)"
    unfolding add_colwise_squaredNorm_def by blast
  have "(\<Sum>k\<leftarrow>indices cs. if cp + k = int j then ?g k else 0)
          = (\<Sum>(r, c, v)\<leftarrow>block_triples A (rb, cell, cs, cp).
               if c = int j then v * v else 0)" for j
    unfolding sum_block_triples
    by (subst sum_list_swap) (simp add: sum_list_if_distrib cong: if_cong)
  with x' pt show ?thesis by simp
qed

lemma SquaredColumnNorm_pointwise:
  fixes m :: "real BlockSparseMatrix"
  assumes inv: "matrix_invariant m" and x: "int (length x) = num_cols m"
  shows "\<exists>x'. fst (SquaredColumnNorm dcheck (Some x) m) = Inr x' \<and> length x' = length x
           \<and> (\<forall>j. j < length x \<longrightarrow>
                 x' ! j = (\<Sum>(r, c, v)\<leftarrow>stored_triples m. if c = int j then v * v else 0))"
proof -
  let ?bs = "block_structure m" and ?A = "values_buf m"
  let ?zero = "replicate (length x) (0::real)"
  let ?h = "\<lambda>q j. \<Sum>(r, c, v)\<leftarrow>block_triples ?A q. if c = int j then v * v else 0"
  from inv have d: "descriptor_invariant ?bs" and A: "num_nonzeros m \<le> int (length ?A)"
    by (simp_all add: matrix_invariant_def)
  have zero: "fill_zero x (num_cols m) = Inr ?zero"
    using x by (simp add: fill_zero_def)
  have "\<exists>x'. for_each (cell_list ?bs)
               (\<lambda>(rb, cell, cs, cp) xv.
                  add_colwise_squaredNorm ?A (position cell) (block_size rb) cs xv cp) ?zero
               = Inr x'
          \<and> length x' = length x
          \<and> (\<forall>j. j < length x \<longrightarrow> x' ! j = ?zero ! j + (\<Sum>q\<leftarrow>cell_list ?bs. ?h q j))"
  proof (rule for_each_pointwise [where I = "\<lambda>s. length s = length x"
        and obs = "\<lambda>s j. s ! j" and J = "\<lambda>j. j < length x" and h = ?h])
    show "length ?zero = length x" by simp
  next
    fix q and s :: "real list"
    assume q: "q \<in> set (cell_list ?bs)" and len: "length s = length x"
    obtain rb cell cs cp where q_eq: "q = (rb, cell, cs, cp)" by (cases q) auto
    have b: "cell_in_bounds (num_rows m) (num_cols m) (num_nonzeros m) (rb, cell, cs, cp)"
      using matrix_invariant_bounds [OF inv q] by (simp add: q_eq)
    have "num_cols m \<le> int (length s)" using x len by simp
    from add_colwise_squaredNorm_cell [OF b A this] len
    show "\<exists>s'. (case q of (rb, cell, cs, cp) \<Rightarrow> \<lambda>xv.
                  add_colwise_squaredNorm ?A (position cell) (block_size rb) cs xv cp) s = Inr s'
            \<and> length s' = length x
            \<and> (\<forall>j. j < length x \<longrightarrow> s' ! j = s ! j + ?h q j)"
      by (simp add: q_eq)
  qed
  then show ?thesis
    unfolding sum_stored_triples
    by (simp add: SquaredColumnNorm_def deref_def zero
        for_each_cell_flat [OF invariant_lengths [OF d]])
qed

lemma keyed_sum_square:
  assumes "distinct (map key ts)"
  shows "(\<Sum>t\<leftarrow>ts. if key t = k then f t else (0::real))
           * (\<Sum>t\<leftarrow>ts. if key t = k then f t else 0)
         = (\<Sum>t\<leftarrow>ts. if key t = k then f t * f t else 0)"
proof (cases "\<exists>t \<in> set ts. key t = k")
  case True
  then obtain t where t: "t \<in> set ts" "key t = k" by blast
  from keyed_sum_distinct [OF assms t(1), of f] keyed_sum_distinct [OF assms t(1), of "\<lambda>t. f t * f t"]
  show ?thesis by (simp add: t(2))
next
  case False
  then have "(\<Sum>t\<leftarrow>ts. if key t = k then g t else (0::real)) = 0" for g
    by (intro keyed_sum_none) blast
  then show ?thesis by simp
qed

lemma column_squaredNorm_sum:
  "column_squaredNorm D j = (\<Sum>i<length D. D ! i ! j * D ! i ! j)"
proof -
  have "column_squaredNorm D j = sum_list (map (\<lambda>row. row ! j * row ! j) D)"
    by (simp add: column_squaredNorm_def)
  also have "\<dots> = (\<Sum>i<length D. map (\<lambda>row. row ! j * row ! j) D ! i)"
    by (subst sum_list_nth_sum) simp
  finally show ?thesis by simp
qed

lemma column_squaredNorm_of_triples:
  assumes dims: "has_dims nr nc D" and j: "j < nc"
    and pt: "\<forall>i j. i < nr \<and> j < nc \<longrightarrow>
               D ! i ! j = (\<Sum>(r, c, v)\<leftarrow>ts. if r = int i \<and> c = int j then v else 0)"
    and inside: "\<And>r c v. (r, c, v) \<in> set ts \<Longrightarrow> 0 \<le> r \<and> r < int nr"
    and dist: "distinct (map coordinates ts)"
  shows "column_squaredNorm D j = (\<Sum>(r, c, v)\<leftarrow>ts. if c = int j then v * v else 0)"
proof -
  let ?f = "\<lambda>t. if fst (snd t) = int j then snd (snd t) * snd (snd t) else 0"
  have sq: "D ! i ! j * D ! i ! j = (\<Sum>t\<leftarrow>ts. if fst t = int i then ?f t else 0) * 1"
    if i: "i < nr" for i
  proof -
    have "D ! i ! j = (\<Sum>t\<leftarrow>ts. if coordinates t = (int i, int j) then snd (snd t) else 0)"
      using pt i j by (simp add: sum_at_coordinates)
    then have "D ! i ! j * D ! i ! j
                 = (\<Sum>t\<leftarrow>ts. if coordinates t = (int i, int j)
                             then snd (snd t) * snd (snd t) else 0)"
      using keyed_sum_square [OF dist, of "(int i, int j)" "\<lambda>t. snd (snd t)"] by simp
    also have "\<dots> = (\<Sum>t\<leftarrow>ts. if fst t = int i then ?f t else 0)"
      by (intro arg_cong [where f = sum_list] map_cong refl) (simp add: coordinates_eq)
    finally show ?thesis by simp
  qed
  have "column_squaredNorm D j = (\<Sum>i<nr. D ! i ! j * D ! i ! j)"
    using dims by (simp add: column_squaredNorm_sum has_dims_def)
  also have "\<dots> = (\<Sum>i<nr. (\<Sum>t\<leftarrow>ts. if fst t = int i then ?f t else 0) * 1)"
    using sq by (intro sum.cong) simp_all
  also have "\<dots> = (\<Sum>t\<leftarrow>ts. ?f t * 1)"
  proof (rule sum_keyed)
    fix t assume "t \<in> set ts"
    then show "0 \<le> fst t \<and> fst t < int nr"
      using inside [of "fst t" "fst (snd t)" "snd (snd t)"] by simp
  qed
  finally show ?thesis by (simp add: case_prod_unfold)
qed

text \<open>
  C5 fails as the claim states it: where a row block lists a column block twice, the
  dense form adds the two blocks up before anything is squared, and
  \<^verbatim>\<open>SquaredColumnNorm\<close> squares each stored scalar. For \<open>duplicate_matrix\<close> it yields
  2, and the squared norm of the only column of the dense form is 4.
\<close>

theorem SquaredColumnNorm_counterexample:
  "matrix_invariant duplicate_matrix
   \<and> fst (SquaredColumnNorm True (Some [0]) duplicate_matrix) = Inr [2]
   \<and> fst (ToDenseMatrix True (Some []) duplicate_matrix) = Inr [[2]]
   \<and> column_squaredNorm [[2]] 0 = 4"
  by code_simp

text \<open>
  C5, amended. For a matrix that satisfies the invariant and an array \<open>x\<close> of length
  \<open>num_cols\<close>, \<^verbatim>\<open>SquaredColumnNorm\<close> leaves in \<open>x\<close>, whatever it held before, for each
  column the sum of the squares of the stored scalars of that column (the values of the
  triples of \<^verbatim>\<open>ToTripletSparseMatrix\<close> with that column index); when no two stored
  scalars have the same coordinates, this is the squared norm of that column of the dense
  form.
\<close>

theorem SquaredColumnNorm_columns:
  assumes inv: "matrix_invariant m" and x: "int (length x) = num_cols m"
  shows "\<exists>x' D t'. fst (SquaredColumnNorm dcheck (Some x) m) = Inr x'
           \<and> fst (ToDenseMatrix dcheck (Some d0) m) = Inr D
           \<and> fst (ToTripletSparseMatrix dcheck (Some t) m) = Inr t'
           \<and> length x' = length x
           \<and> (\<forall>j. j < length x \<longrightarrow>
                 x' ! j = (\<Sum>(r, c, v)\<leftarrow>triplets t'. if c = int j then v * v else 0))
           \<and> (distinct (map coordinates (triplets t')) \<longrightarrow>
                 (\<forall>j. j < length x \<longrightarrow> x' ! j = column_squaredNorm D j))"
proof -
  from SquaredColumnNorm_pointwise [OF inv x, of dcheck]
  obtain x' where x': "fst (SquaredColumnNorm dcheck (Some x) m) = Inr x'"
    and len: "length x' = length x"
    and pt: "\<forall>j. j < length x \<longrightarrow>
               x' ! j = (\<Sum>(r, c, v)\<leftarrow>stored_triples m. if c = int j then v * v else 0)"
    by blast
  from ToDenseMatrix_pointwise [OF inv, of dcheck d0]
  obtain D where D: "fst (ToDenseMatrix dcheck (Some d0) m) = Inr D"
    and dims: "has_dims (nat (num_rows m)) (nat (num_cols m)) D"
    and dense: "\<forall>i j. i < nat (num_rows m) \<and> j < nat (num_cols m) \<longrightarrow>
               D ! i ! j = (\<Sum>(r, c, v)\<leftarrow>stored_triples m.
                              if r = int i \<and> c = int j then v else 0)"
    by blast
  from ToTripletSparseMatrix_stored [OF inv, of dcheck t]
  obtain t' where t': "fst (ToTripletSparseMatrix dcheck (Some t) m) = Inr t'"
    and trip: "triplets t' = stored_triples m"
    by blast
  have inside: "0 \<le> r \<and> r < int (nat (num_rows m))"
    if "(r, c, v) \<in> set (stored_triples m)" for r c v
    using stored_triple_bounds [OF inv that] by simp
  have "x' ! j = column_squaredNorm D j"
    if dist: "distinct (map coordinates (stored_triples m))" and j: "j < length x" for j
  proof -
    from j x have "j < nat (num_cols m)" by simp
    from column_squaredNorm_of_triples [OF dims this dense inside dist] pt j
    show ?thesis by simp
  qed
  then have norms: "distinct (map coordinates (triplets t')) \<longrightarrow>
                      (\<forall>j. j < length x \<longrightarrow> x' ! j = column_squaredNorm D j)"
    unfolding trip by blast
  have pt': "\<forall>j. j < length x \<longrightarrow>
               x' ! j = (\<Sum>(r, c, v)\<leftarrow>triplets t'. if c = int j then v * v else 0)"
    unfolding trip by (rule pt)
  from x' D t' len pt' norms show ?thesis by blast
qed

theorem SquaredColumnNorm_columns_witness:
  "matrix_invariant example_matrix
   \<and> int (length [7, 8, 9 :: real]) = num_cols example_matrix
   \<and> (\<exists>x' D t'. fst (SquaredColumnNorm True (Some [7, 8, 9]) example_matrix) = Inr x'
          \<and> fst (ToDenseMatrix True (Some []) example_matrix) = Inr D
          \<and> fst (ToTripletSparseMatrix True (Some empty_triplet) example_matrix) = Inr t'
          \<and> distinct (map coordinates (triplets t'))
          \<and> x' = [1, 4, 50]
          \<and> (\<forall>j. j < 3 \<longrightarrow> x' ! j = column_squaredNorm D j))"
proof -
  let ?t = "\<lparr> t_num_rows = 3, t_num_cols = 3, t_num_nonzeros = 5, t_rows = [0, 0, 0, 1, 2],
              t_cols = [0, 1, 2, 2, 2], t_values = [1, 2, 3, 4, 5 :: real] \<rparr>"
  have h1: "matrix_invariant example_matrix" by code_simp
  have h2: "int (length [7, 8, 9 :: real]) = num_cols example_matrix" by code_simp
  have T: "fst (ToTripletSparseMatrix True (Some empty_triplet) example_matrix) = Inr ?t"
    by code_simp
  have X: "fst (SquaredColumnNorm True (Some [7, 8, 9]) example_matrix) = Inr [1, 4, 50]"
    by code_simp
  have dist: "distinct (map coordinates (triplets ?t))" by code_simp
  from SquaredColumnNorm_columns [OF h1 h2, of True "[]" empty_triplet]
  obtain x' D t' where x': "fst (SquaredColumnNorm True (Some [7, 8, 9]) example_matrix) = Inr x'"
    and D: "fst (ToDenseMatrix True (Some []) example_matrix) = Inr D"
    and t': "fst (ToTripletSparseMatrix True (Some empty_triplet) example_matrix) = Inr t'"
    and norms: "distinct (map coordinates (triplets t')) \<longrightarrow>
                  (\<forall>j. j < length [7, 8, 9 :: real] \<longrightarrow> x' ! j = column_squaredNorm D j)"
    by blast
  from t' T have "t' = ?t" by simp
  with dist norms have "distinct (map coordinates (triplets t'))"
    and "\<forall>j. j < 3 \<longrightarrow> x' ! j = column_squaredNorm D j"
    by simp_all
  moreover from x' X have "x' = [1, 4, 50]" by simp
  ultimately show ?thesis using h1 h2 x' D t' by blast
qed

end
